theory Spec2Isabelle
  imports Complex_Main
begin

section \<open>Data model\<close>

text \<open>
  The area graph of \<^verbatim>\<open>js/index.js\<close>. JavaScript numbers are modelled as real numbers:
  arithmetic is exact and there is no \<^verbatim>\<open>NaN\<close> and no \<^verbatim>\<open>Infinity\<close>. Where the script
  would throw, or would produce a value that is not a finite number, the model returns a
  \<open>failure\<close>. The bisection over the length of a curve is modelled twice: in exact
  arithmetic, and in double arithmetic with the rounding of each operation.
\<close>

datatype failure =
    TypeError \<comment> \<open>a property of \<^verbatim>\<open>undefined\<close> is read, or \<^verbatim>\<open>reduce\<close> runs on an empty array\<close>
  | NonFinite \<comment> \<open>the script computes \<^verbatim>\<open>NaN\<close> or \<^verbatim>\<open>Infinity\<close>\<close>

definition bindE :: "failure + 'a \<Rightarrow> ('a \<Rightarrow> failure + 'b) \<Rightarrow> failure + 'b" where
  "bindE m f = (case m of Inl e \<Rightarrow> Inl e | Inr v \<Rightarrow> f v)"

text \<open>Callbacks run in order; the first one that fails ends the iteration.\<close>

fun sequenceE :: "(failure + 'a) list \<Rightarrow> failure + 'a list" where
  "sequenceE [] = Inr []"
| "sequenceE (m # ms) = bindE m (\<lambda>v. bindE (sequenceE ms) (\<lambda>vs. Inr (v # vs)))"

text \<open>\<^verbatim>\<open>array.map(function (value, index) ...)\<close>: the callback receives the index too.\<close>

definition mapIndexedE :: "(nat \<Rightarrow> 'a \<Rightarrow> failure + 'b) \<Rightarrow> 'a list \<Rightarrow> failure + 'b list" where
  "mapIndexedE f xs = sequenceE (map (\<lambda>(i, v). f i v) (enumerate 0 xs))"

text \<open>Reading \<^verbatim>\<open>array[i]\<close>: \<^verbatim>\<open>undefined\<close> (here \<open>None\<close>) beyond the end.\<close>

definition array_at :: "'a list \<Rightarrow> nat \<Rightarrow> 'a option" where
  "array_at xs i = (if i < length xs then Some (xs ! i) else None)"

text \<open>A division whose divisor is zero gives \<^verbatim>\<open>Infinity\<close> or \<^verbatim>\<open>NaN\<close> in JavaScript.\<close>

definition js_div :: "real \<Rightarrow> real \<Rightarrow> failure + real" where
  "js_div a b = (if b = 0 then Inl NonFinite else Inr (a / b))"

text \<open>A coordinate pair \<^verbatim>\<open>{x: ..., y: ...}\<close>.\<close>

record xy =
  x_coord :: real
  y_coord :: real

text \<open>An entry of \<^verbatim>\<open>areaMeta\<close>: the placeholder \<^verbatim>\<open>''\<close> or \<^verbatim>\<open>{ classNames: '...' }\<close>.\<close>

datatype meta = NoStyle | ClassNames string

text \<open>
  A stacked point: the array \<^verbatim>\<open>[y0, y1]\<close> that \<^verbatim>\<open>d3.stack\<close> builds (baseline and
  cumulative top) with the two properties \<^verbatim>\<open>coords\<close> and \<^verbatim>\<open>meta\<close> that
  \<^verbatim>\<open>updateStack\<close> attaches. \<open>meta\<close> is \<open>None\<close> where \<^verbatim>\<open>areaMeta\<close> has no entry.
\<close>

record point =
  y0 :: real
  y1 :: real
  coords :: xy
  meta :: "meta option"

record input_data =
  areas :: "real list list"
  areaMeta :: "meta list"

text \<open>The container element: \<^verbatim>\<open>clientWidth\<close> and \<^verbatim>\<open>clientHeight\<close> are non-negative integers.\<close>

record container =
  clientWidth :: nat
  clientHeight :: nat

section \<open>The parts of d3 that the graph calls\<close>

text \<open>
  d3 is an external library. The definitions of this section follow its published
  sources (d3-array, d3-shape, d3-scale) for the calls the graph makes.
\<close>

text \<open>\<^verbatim>\<open>d3.min(array)\<close> and \<^verbatim>\<open>d3.max(array)\<close>: \<^verbatim>\<open>undefined\<close> (here \<open>None\<close>) on no values.\<close>

fun d3_min :: "'a::linorder list \<Rightarrow> 'a option" where
  "d3_min [] = None"
| "d3_min (v # vs) = (case d3_min vs of None \<Rightarrow> Some v | Some m \<Rightarrow> Some (min v m))"

fun d3_max :: "'a::linorder list \<Rightarrow> 'a option" where
  "d3_max [] = None"
| "d3_max (v # vs) = (case d3_max vs of None \<Rightarrow> Some v | Some m \<Rightarrow> Some (max v m))"

text \<open>With an accessor: the values for which the accessor gives \<^verbatim>\<open>undefined\<close> are skipped.\<close>

definition d3_min_by :: "('a \<Rightarrow> 'b::linorder option) \<Rightarrow> 'a list \<Rightarrow> 'b option" where
  "d3_min_by f xs = d3_min (List.map_filter f xs)"

definition d3_max_by :: "('a \<Rightarrow> 'b::linorder option) \<Rightarrow> 'a list \<Rightarrow> 'b option" where
  "d3_max_by f xs = d3_max (List.map_filter f xs)"

text \<open>\<^verbatim>\<open>d3.range(n)\<close>.\<close>

definition d3_range :: "nat \<Rightarrow> nat list" where
  "d3_range n = [0..<n]"

text \<open>
  \<^verbatim>\<open>d3.transpose(matrix)\<close>: as many rows as the shortest row of the matrix is long; row
  \<open>i\<close> holds \<^verbatim>\<open>matrix[j][i]\<close> for every \<open>j\<close>. Every read is in range.
\<close>

definition d3_transpose :: "'a list list \<Rightarrow> 'a list list" where
  "d3_transpose matrix =
     (case d3_min (map length matrix) of
        None \<Rightarrow> []
      | Some m \<Rightarrow> map (\<lambda>i. map (\<lambda>row. row ! i) matrix) [0..<m])"

text \<open>
  \<^verbatim>\<open>d3.stackOffsetNone\<close>: from the second series on, a point's baseline becomes the top of
  the point below it, and its top grows by that baseline.
\<close>

fun stackOffsetNone_from :: "(real \<times> real) list \<Rightarrow> (real \<times> real) list list \<Rightarrow> (real \<times> real) list list" where
  "stackOffsetNone_from s0 [] = []"
| "stackOffsetNone_from s0 (s1 # rest) =
     (let s1' = map (\<lambda>(below, p). (snd below, snd p + snd below)) (zip s0 s1)
      in s1' # stackOffsetNone_from s1' rest)"

definition stackOffsetNone :: "(real \<times> real) list list \<Rightarrow> (real \<times> real) list list" where
  "stackOffsetNone series = (case series of [] \<Rightarrow> [] | s # rest \<Rightarrow> s # stackOffsetNone_from s rest)"

text \<open>
  \<^verbatim>\<open>d3.stack().keys(keys).offset(d3.stackOffsetNone)(data)\<close>: one series per key, one
  point \<^verbatim>\<open>[0, d[key]]\<close> per element \<open>d\<close> of the data, then the offset. The graph passes
  the keys \<open>0, ..., n - 1\<close> and rows of length \<open>n\<close>, so \<open>d ! key\<close> is in range.
\<close>

definition d3_stack :: "nat list \<Rightarrow> real list list \<Rightarrow> (real \<times> real) list list" where
  "d3_stack keys dat = stackOffsetNone (map (\<lambda>key. map (\<lambda>d. (0, d ! key)) dat) keys)"

text \<open>
  The stack that \<^verbatim>\<open>updateStack\<close> starts from:
  \<^verbatim>\<open>d3.stack().keys(d3.range(areas.length)).offset(d3.stackOffsetNone)(d3.transpose(areas))\<close>.
\<close>

definition transposedStack :: "real list list \<Rightarrow> (real \<times> real) list list" where
  "transposedStack series = d3_stack (d3_range (length series)) (d3_transpose series)"

text \<open>
  \<^verbatim>\<open>d3.scaleLinear().domain([d0, d1]).range([r0, r1])\<close>, without clamping. The scale and
  its \<^verbatim>\<open>invert\<close> are both \<^verbatim>\<open>bimap\<close>, with domain and range exchanged for the inverse.
  On an interval of width zero \<^verbatim>\<open>normalize\<close> is a constant that depends on the release of
  d3-scale (\<open>0\<close> in the early ones, \<open>1/2\<close> in the later ones); it is the parameter \<open>t0\<close>
  here. \<^verbatim>\<open>interpolateNumber\<close> is \<open>a + (b - a) * t\<close> or, in later releases, the equal
  \<open>a * (1 - t) + b * t\<close>.
\<close>

record scale =
  scale_domain :: "real \<times> real"
  scale_range :: "real \<times> real"

definition normalize :: "real \<Rightarrow> real \<Rightarrow> real \<Rightarrow> real \<Rightarrow> real" where
  "normalize t0 a b v = (if b - a \<noteq> 0 then (v - a) / (b - a) else t0)"

definition interpolateNumber :: "real \<Rightarrow> real \<Rightarrow> real \<Rightarrow> real" where
  "interpolateNumber a b t = a + (b - a) * t"

definition bimap :: "real \<Rightarrow> real \<times> real \<Rightarrow> real \<times> real \<Rightarrow> real \<Rightarrow> real" where
  "bimap t0 from_interval to_interval v =
     (case (from_interval, to_interval) of ((d0, d1), (r0, r1)) \<Rightarrow>
        if d1 < d0 then interpolateNumber r1 r0 (normalize t0 d1 d0 v)
        else interpolateNumber r0 r1 (normalize t0 d0 d1 v))"

definition scale_apply :: "real \<Rightarrow> scale \<Rightarrow> real \<Rightarrow> real" where
  "scale_apply t0 s v = bimap t0 (scale_domain s) (scale_range s) v"

definition scale_invert :: "real \<Rightarrow> scale \<Rightarrow> real \<Rightarrow> real" where
  "scale_invert t0 s v = bimap t0 (scale_range s) (scale_domain s) v"

section \<open>Generic functions used by the area graph\<close>

definition stackMax :: "point list \<Rightarrow> real option" where
  "stackMax area = d3_max (map y1 area)"

definition stackMin :: "point list \<Rightarrow> real option" where
  "stackMin area = d3_min (map y0 area)"

text \<open>
  \<^verbatim>\<open>data.reduce(callback)\<close> without an initial value: the first element starts as the
  accumulator, and an empty array throws.
\<close>

definition findClosestPointLeft :: "point list \<Rightarrow> real \<Rightarrow> failure + point" where
  "findClosestPointLeft dat referencePointX =
     (case dat of
        [] \<Rightarrow> Inl TypeError
      | first # others \<Rightarrow>
          Inr (foldl (\<lambda>accumulator currentValue.
                 if x_coord (coords currentValue) < referencePointX
                    \<and> x_coord (coords currentValue) \<ge> x_coord (coords accumulator)
                 then currentValue else accumulator) first others))"

text \<open>\<^verbatim>\<open>data.reduceRight(callback)\<close>: the same from the last element down to the first.\<close>

definition findClosestPointRight :: "point list \<Rightarrow> real \<Rightarrow> failure + point" where
  "findClosestPointRight dat referencePointX =
     (case rev dat of
        [] \<Rightarrow> Inl TypeError
      | final # others \<Rightarrow>
          Inr (foldl (\<lambda>accumulator currentValue.
                 if x_coord (coords currentValue) \<ge> referencePointX
                    \<and> x_coord (coords currentValue) \<le> x_coord (coords accumulator)
                 then currentValue else accumulator) final others))"

text \<open>
  The bisection over the length of a curve, in exact arithmetic. Every call that does not
  return halves \<open>\<bar>right - left\<bar>\<close>, which is above \<open>1/2\<close> there; this is why this recursion
  ends: \<open>\<lceil>4 * \<bar>right - left\<bar>\<rceil>\<close> decreases.
\<close>

function findClosestPointVertically :: "real \<Rightarrow> real \<Rightarrow> real \<Rightarrow> (real \<Rightarrow> xy) \<Rightarrow> xy" where
  "findClosestPointVertically left right xValue pointFunc =
     (let precision = 1 / 2;
          split = (left + right) / 2;
          curvePoint = pointFunc split;
          distance = \<bar>right - left\<bar>
      in if distance \<le> precision then curvePoint
         else if x_coord curvePoint \<le> xValue
           then findClosestPointVertically split right xValue pointFunc
           else findClosestPointVertically left split xValue pointFunc)"
  by pat_completeness auto
termination
proof -
  have halving: "nat \<lceil>4 * (\<bar>right - left\<bar> / 2)\<rceil> < nat \<lceil>4 * \<bar>right - left\<bar>\<rceil>"
    if far: "\<not> \<bar>right - left\<bar> \<le> 1 / 2" for left right :: real
  proof -
    have "real_of_int \<lceil>4 * (\<bar>right - left\<bar> / 2)\<rceil> < 4 * (\<bar>right - left\<bar> / 2) + 1"
      by linarith
    also have "\<dots> < 4 * \<bar>right - left\<bar>"
      using far by simp
    also have "\<dots> \<le> real_of_int \<lceil>4 * \<bar>right - left\<bar>\<rceil>"
      by linarith
    finally have "\<lceil>4 * (\<bar>right - left\<bar> / 2)\<rceil> < \<lceil>4 * \<bar>right - left\<bar>\<rceil>"
      by simp
    moreover have "0 < \<lceil>4 * \<bar>right - left\<bar>\<rceil>"
      using far by (auto simp: less_ceiling_iff)
    ultimately show ?thesis
      by simp
  qed
  have to_right: "\<bar>right - (left + right) / 2\<bar> = \<bar>right - left\<bar> / 2"
    and to_left: "\<bar>(left + right) / 2 - left\<bar> = \<bar>right - left\<bar> / 2" for left right :: real
    by (simp_all add: field_simps abs_if)
  show ?thesis
    by (relation "measure (\<lambda>(left, right, xValue, pointFunc). nat \<lceil>4 * \<bar>right - left\<bar>\<rceil>)")
       (simp_all only: wf_measure in_measure prod.case to_right to_left, (erule halving)+)
qed

text \<open>
  The same recursion, recording the calls: the list of the intervals \<open>(left, right)\<close> that
  \<^verbatim>\<open>findClosestPointVerticallyR\<close> is entered with, in order. Each call evaluates
  \<^verbatim>\<open>pointFunc\<close> once, at the middle of its interval.
\<close>

function findClosestPointVertically_calls :: "real \<Rightarrow> real \<Rightarrow> real \<Rightarrow> (real \<Rightarrow> xy) \<Rightarrow> (real \<times> real) list" where
  "findClosestPointVertically_calls left right xValue pointFunc =
     (let precision = 1 / 2;
          split = (left + right) / 2;
          curvePoint = pointFunc split;
          distance = \<bar>right - left\<bar>
      in if distance \<le> precision then [(left, right)]
         else if x_coord curvePoint \<le> xValue
           then (left, right) # findClosestPointVertically_calls split right xValue pointFunc
           else (left, right) # findClosestPointVertically_calls left split xValue pointFunc)"
  by pat_completeness auto
termination
proof -
  have halving: "nat \<lceil>4 * (\<bar>right - left\<bar> / 2)\<rceil> < nat \<lceil>4 * \<bar>right - left\<bar>\<rceil>"
    if far: "\<not> \<bar>right - left\<bar> \<le> 1 / 2" for left right :: real
  proof -
    have "real_of_int \<lceil>4 * (\<bar>right - left\<bar> / 2)\<rceil> < 4 * (\<bar>right - left\<bar> / 2) + 1"
      by linarith
    also have "\<dots> < 4 * \<bar>right - left\<bar>"
      using far by simp
    also have "\<dots> \<le> real_of_int \<lceil>4 * \<bar>right - left\<bar>\<rceil>"
      by linarith
    finally have "\<lceil>4 * (\<bar>right - left\<bar> / 2)\<rceil> < \<lceil>4 * \<bar>right - left\<bar>\<rceil>"
      by simp
    moreover have "0 < \<lceil>4 * \<bar>right - left\<bar>\<rceil>"
      using far by (auto simp: less_ceiling_iff)
    ultimately show ?thesis
      by simp
  qed
  have to_right: "\<bar>right - (left + right) / 2\<bar> = \<bar>right - left\<bar> / 2"
    and to_left: "\<bar>(left + right) / 2 - left\<bar> = \<bar>right - left\<bar> / 2" for left right :: real
    by (simp_all add: field_simps abs_if)
  show ?thesis
    by (relation "measure (\<lambda>(left, right, xValue, pointFunc). nat \<lceil>4 * \<bar>right - left\<bar>\<rceil>)")
       (simp_all only: wf_measure in_measure prod.case to_right to_left, (erule halving)+)
qed

text \<open>
  The two functions above are the recursion in exact arithmetic. The script computes in
  IEEE 754 double precision: the result of each operation is the real result rounded to
  the nearest double, a tie going to the double whose last bit is zero.

  The doubles \<open>v\<close> with \<open>2 ^ e \<le> \<bar>v\<bar> < 2 ^ (e + 1)\<close> are the multiples of \<open>2 ^ (e - 52)\<close>
  in that range, and those below \<open>2 ^ (- 1022)\<close> in magnitude are the multiples of
  \<open>2 ^ (- 1074)\<close>. A result that rounds to \<open>2 ^ 1024\<close> or beyond is \<^verbatim>\<open>Infinity\<close> in
  JavaScript; the model stops there with \<open>NonFinite\<close>.
\<close>

definition round_half_even :: "real \<Rightarrow> int" where
  "round_half_even v =
     (let below = \<lfloor>v\<rfloor>;
          rest = v - of_int below
      in if rest < 1 / 2 then below
         else if 1 / 2 < rest then below + 1
         else if even below then below else below + 1)"

definition js_number :: "real \<Rightarrow> failure + real" where
  "js_number v =
     (if v = 0 then Inr 0
      else
        let exponent = max \<lfloor>log 2 \<bar>v\<bar>\<rfloor> (- 1022);
            ulp = 2 powr (of_int exponent - 52);
            rounded = of_int (round_half_even (v / ulp)) * ulp
        in if 2 powr 1024 \<le> \<bar>rounded\<bar> then Inl NonFinite else Inr rounded)"

text \<open>
  One call of \<^verbatim>\<open>findClosestPointVerticallyR\<close> in double arithmetic, up to its
  \<^verbatim>\<open>return\<close>: \<^verbatim>\<open>left + right\<close>, its half and \<^verbatim>\<open>right - left\<close> are rounded. The call
  returns the point on the curve, or goes on with another call of itself.
\<close>

datatype outcome = Return xy | Recurse real real

definition findClosestPointVertically_body ::
  "real \<Rightarrow> real \<Rightarrow> real \<Rightarrow> (real \<Rightarrow> xy) \<Rightarrow> failure + outcome" where
  "findClosestPointVertically_body left right xValue pointFunc =
     bindE (js_number (left + right)) (\<lambda>sum.
     bindE (js_number (sum / 2)) (\<lambda>split.
     bindE (js_number (right - left)) (\<lambda>difference.
       let precision = 1 / 2;
           curvePoint = pointFunc split;
           distance = \<bar>difference\<bar>
       in Inr (if distance \<le> precision then Return curvePoint
               else if x_coord curvePoint \<le> xValue then Recurse split right
               else Recurse left split))))"

text \<open>
  \<^verbatim>\<open>findClosestPointVertically\<close> in double arithmetic. Nothing in the script bounds the
  number of calls, so the model takes fuel, one unit for each call: \<open>None\<close> says that the
  fuel did not suffice. The result is the point returned together with the intervals
  \<open>(left, right)\<close> of the calls made, in order; each call evaluates \<^verbatim>\<open>pointFunc\<close> once.
\<close>

fun findClosestPointVertically_js ::
  "nat \<Rightarrow> real \<Rightarrow> real \<Rightarrow> real \<Rightarrow> (real \<Rightarrow> xy) \<Rightarrow> (failure + xy \<times> (real \<times> real) list) option" where
  "findClosestPointVertically_js 0 left right xValue pointFunc = None"
| "findClosestPointVertically_js (Suc fuel) left right xValue pointFunc =
     (case findClosestPointVertically_body left right xValue pointFunc of
        Inl thrown \<Rightarrow> Some (Inl thrown)
      | Inr (Return curvePoint) \<Rightarrow> Some (Inr (curvePoint, [(left, right)]))
      | Inr (Recurse new_left new_right) \<Rightarrow>
          map_option (map_sum id (apsnd ((#) (left, right))))
            (findClosestPointVertically_js fuel new_left new_right xValue pointFunc))"

text \<open>
  The arithmetic of a call is exact when the sum, its half and the difference of the two
  ends are doubles; the call then computes what the recursion in exact arithmetic does.
\<close>

definition exact_arithmetic :: "real \<Rightarrow> real \<Rightarrow> bool" where
  "exact_arithmetic left right \<longleftrightarrow>
     js_number (left + right) = Inr (left + right)
     \<and> js_number ((left + right) / 2) = Inr ((left + right) / 2)
     \<and> js_number (right - left) = Inr (right - left)"

section \<open>The class AreaGraph\<close>

text \<open>
  What the graph draws. A path of the layer of areas carries, for each of its points, the
  pixel position \<open>(x, y0, y1)\<close> handed to the curve generator, and its class names; a path
  of the layer of borders carries \<open>(x, y1)\<close>. The curve between the points is the
  browser's and d3's and is not modelled.
\<close>

datatype element =
    AreaPath "(real \<times> real \<times> real) list" string
  | BorderPath "(real \<times> real) list"

record svg =
  svg_height :: nat
  svg_width :: nat
  layers :: "(string \<times> element list) list"

text \<open>
  A child node of the container: an \<^verbatim>\<open>svg\<close> that a graph appended, or any other node (a
  text node, an element of the page).
\<close>

datatype node = SvgNode svg | OtherNode

record AreaGraph =
  container :: container
  childNodes :: "node list" \<comment> \<open>the children of the container element\<close>
  data :: input_data
  stack :: "point list list"

text \<open>
  \<^verbatim>\<open>d3.selectAll(this.config.container.childNodes).remove()\<close>. The script calls
  \<^verbatim>\<open>d3.mouse\<close>, which d3 has up to 5.x, that is with d3-selection 1.x. There
  \<^verbatim>\<open>d3.selectAll(nodes)\<close> keeps the given list, here the live list of children, as the
  group of the selection, and \<^verbatim>\<open>remove\<close> visits the indices \<open>0, ..., n - 1\<close>, with \<open>n\<close>
  the length of the list at the start, detaching the node it finds at each index. A
  detached node leaves the live list and the later ones move down, so an index beyond the
  present end finds nothing.
\<close>

definition remove_visited :: "'a list \<Rightarrow> 'a list" where
  "remove_visited nodes =
     fold (\<lambda>i group. if i < length group then take i group @ drop (Suc i) group else group)
       [0..<length nodes] nodes"

definition clear :: "AreaGraph \<Rightarrow> AreaGraph" where
  "clear this = this\<lparr>childNodes := remove_visited (childNodes this)\<rparr>"

definition areaCount :: "AreaGraph \<Rightarrow> nat" where
  "areaCount this = length (areas (data this))"

text \<open>\<^verbatim>\<open>this.data.areas[0].length - 1\<close>: without a first series, reading \<^verbatim>\<open>length\<close> throws.\<close>

definition xAxisSectionCount :: "AreaGraph \<Rightarrow> failure + int" where
  "xAxisSectionCount this =
     (case areas (data this) of
        [] \<Rightarrow> Inl TypeError
      | first # others \<Rightarrow> Inr (int (length first) - 1))"

definition xScale :: "AreaGraph \<Rightarrow> failure + scale" where
  "xScale this =
     (let width = real (clientWidth (container this))
      in bindE (xAxisSectionCount this) (\<lambda>sectionCount.
           Inr \<lparr>scale_domain = (0, real_of_int sectionCount), scale_range = (0, width)\<rparr>))"

text \<open>
  The range of the y-scale is \<^verbatim>\<open>[height, 5]\<close> in the script that the page runs (the ES6
  text of the class, which follows it in the same file, has \<^verbatim>\<open>[height, 0]\<close>). Its domain
  is \<^verbatim>\<open>undefined\<close> at both ends when the stack has no point; d3 turns that into
  \<^verbatim>\<open>NaN\<close>.
\<close>

definition yScale :: "AreaGraph \<Rightarrow> failure + scale" where
  "yScale this =
     (let height = real (clientHeight (container this))
      in case (d3_min_by stackMin (stack this), d3_max_by stackMax (stack this)) of
           (Some lowest, Some highest) \<Rightarrow>
             Inr \<lparr>scale_domain = (lowest, highest), scale_range = (height, 5)\<rparr>
         | _ \<Rightarrow> Inl NonFinite)"

definition updateStack :: "real \<Rightarrow> AreaGraph \<Rightarrow> failure + point list list" where
  "updateStack t0 this =
     (let transposedStack = d3_stack (d3_range (areaCount this)) (d3_transpose (areas (data this)))
      in mapIndexedE (\<lambda>areaIndex arrays.
           let chartWidth = real (clientWidth (container this))
           in mapIndexedE (\<lambda>index currentValue.
                bindE (if index = 0 then Inr 0
                       else bindE (xAxisSectionCount this) (\<lambda>sectionCount.
                              bindE (js_div chartWidth (real_of_int sectionCount)) (\<lambda>sectionWidth.
                                Inr (sectionWidth * real index))))
                  (\<lambda>xPosition.
                bindE (xScale this) (\<lambda>xs.
                  Inr \<lparr>y0 = fst currentValue,
                       y1 = snd currentValue,
                       coords = \<lparr>x_coord = scale_invert t0 xs xPosition, y_coord = snd currentValue\<rparr>,
                       meta = array_at (areaMeta (data this)) areaIndex\<rparr>)))
              arrays)
         transposedStack)"

definition convertPxToPoint :: "real \<Rightarrow> AreaGraph \<Rightarrow> xy \<Rightarrow> failure + xy" where
  "convertPxToPoint t0 this px =
     bindE (xScale this) (\<lambda>xs. bindE (yScale this) (\<lambda>ys.
       Inr \<lparr>x_coord = scale_invert t0 xs (x_coord px), y_coord = scale_invert t0 ys (y_coord px)\<rparr>))"

definition convertPointToPx :: "real \<Rightarrow> AreaGraph \<Rightarrow> xy \<Rightarrow> failure + xy" where
  "convertPointToPx t0 this pt =
     bindE (xScale this) (\<lambda>xs. bindE (yScale this) (\<lambda>ys.
       Inr \<lparr>x_coord = scale_apply t0 xs (x_coord pt), y_coord = scale_apply t0 ys (y_coord pt)\<rparr>))"

text \<open>The accessors of \<^verbatim>\<open>d3.area()\<close> and \<^verbatim>\<open>d3.line()\<close> build the scales anew for each point.\<close>

definition curveArea :: "real \<Rightarrow> AreaGraph \<Rightarrow> point list \<Rightarrow> failure + (real \<times> real \<times> real) list" where
  "curveArea t0 this series =
     mapIndexedE (\<lambda>i d.
       bindE (xScale this) (\<lambda>xs. bindE (yScale this) (\<lambda>ys. bindE (yScale this) (\<lambda>ys'.
         Inr (scale_apply t0 xs (real i), scale_apply t0 ys (y0 d), scale_apply t0 ys' (y1 d))))))
       series"

definition curveAreaBorder :: "real \<Rightarrow> AreaGraph \<Rightarrow> point list \<Rightarrow> failure + (real \<times> real) list" where
  "curveAreaBorder t0 this series =
     mapIndexedE (\<lambda>i d.
       bindE (xScale this) (\<lambda>xs. bindE (yScale this) (\<lambda>ys.
         Inr (scale_apply t0 xs (real i), scale_apply t0 ys (y1 d)))))
       series"

text \<open>\<^verbatim>\<open>d[i] && d[i].meta && d[i].meta.classNames || ''\<close>\<close>

definition renderArea :: "point list \<Rightarrow> nat \<Rightarrow> string" where
  "renderArea d i =
     (case array_at d i of
        None \<Rightarrow> []
      | Some p \<Rightarrow> (case meta p of Some (ClassNames classNames) \<Rightarrow> classNames | _ \<Rightarrow> []))"

definition renderAreas :: "real \<Rightarrow> AreaGraph \<Rightarrow> failure + string \<times> element list" where
  "renderAreas t0 this =
     bindE (mapIndexedE (\<lambda>i d. bindE (curveArea t0 this d) (\<lambda>path. Inr (AreaPath path (renderArea d i))))
              (stack this))
       (\<lambda>paths. Inr (''areas'', paths))"

definition renderAreaBorders :: "real \<Rightarrow> AreaGraph \<Rightarrow> failure + string \<times> element list" where
  "renderAreaBorders t0 this =
     bindE (mapIndexedE (\<lambda>i d. bindE (curveAreaBorder t0 this d) (\<lambda>path. Inr (BorderPath path)))
              (stack this))
       (\<lambda>paths. Inr (''borders'', paths))"

text \<open>
  \<^verbatim>\<open>render\<close> appends a new \<^verbatim>\<open>svg\<close> of the container's size to the container and fills it
  with the layer of areas, then the layer of borders.
\<close>

definition render :: "real \<Rightarrow> AreaGraph \<Rightarrow> failure + AreaGraph" where
  "render t0 this =
     bindE (renderAreas t0 this) (\<lambda>areasLayer.
     bindE (renderAreaBorders t0 this) (\<lambda>bordersLayer.
       Inr (this\<lparr>childNodes := childNodes this @
              [SvgNode \<lparr>svg_height = clientHeight (container this),
                        svg_width = clientWidth (container this),
                        layers = [areasLayer, bordersLayer]\<rparr>]\<rparr>)))"

definition init :: "real \<Rightarrow> AreaGraph \<Rightarrow> failure + AreaGraph" where
  "init t0 this = bindE (updateStack t0 this) (\<lambda>fullStack. render t0 (this\<lparr>stack := fullStack\<rparr>))"

text \<open>
  \<^verbatim>\<open>new AreaGraph(config)\<close>, on a container with its present children and the data of the
  configuration. The stack is not set before \<^verbatim>\<open>init\<close>, which sets it before anything
  reads it.
\<close>

definition new_AreaGraph :: "real \<Rightarrow> container \<Rightarrow> node list \<Rightarrow> input_data \<Rightarrow> failure + AreaGraph" where
  "new_AreaGraph t0 element children config_data =
     init t0 \<lparr>container = element, childNodes = children, data = config_data, stack = []\<rparr>"

text \<open>
  The argument of \<^verbatim>\<open>update\<close>: an object that may or may not have the keys \<^verbatim>\<open>areas\<close> and
  \<^verbatim>\<open>areaMeta\<close>; \<^verbatim>\<open>_extends({}, this.data, data)\<close> takes the keys it has over the current
  data.
\<close>

record partial_data =
  new_areas :: "real list list option"
  new_areaMeta :: "meta list option"

definition extends :: "input_data \<Rightarrow> partial_data \<Rightarrow> input_data" where
  "extends current given =
     \<lparr>areas = (case new_areas given of None \<Rightarrow> areas current | Some a \<Rightarrow> a),
      areaMeta = (case new_areaMeta given of None \<Rightarrow> areaMeta current | Some m \<Rightarrow> m)\<rparr>"

text \<open>
  \<^verbatim>\<open>update\<close> replaces the data at once and leaves the rest to a callback of the next
  animation frame: \<open>update_frame\<close>, which may find the container resized.
\<close>

definition update :: "AreaGraph \<Rightarrow> partial_data \<Rightarrow> AreaGraph" where
  "update this given = this\<lparr>data := extends (data this) given\<rparr>"

definition update_frame :: "real \<Rightarrow> AreaGraph \<Rightarrow> failure + AreaGraph" where
  "update_frame t0 this =
     (let cleared = clear this
      in bindE (updateStack t0 cleared) (\<lambda>fullStack. render t0 (cleared\<lparr>stack := fullStack\<rparr>)))"

text \<open>The elements drawn in the container: the paths of every layer of every \<^verbatim>\<open>svg\<close>.\<close>

definition layers_of :: "node \<Rightarrow> (string \<times> element list) list" where
  "layers_of child = (case child of SvgNode drawing \<Rightarrow> layers drawing | OtherNode \<Rightarrow> [])"

definition drawn_elements :: "AreaGraph \<Rightarrow> element list" where
  "drawn_elements this = concat (map snd (concat (map layers_of (childNodes this))))"

section \<open>Example inputs\<close>

text \<open>A stacked point at a given x-coordinate, and the points at \<open>0, 1, 2, 3\<close>.\<close>

definition point_at :: "real \<Rightarrow> point" where
  "point_at v = \<lparr>y0 = 0, y1 = 0, coords = \<lparr>x_coord = v, y_coord = 0\<rparr>, meta = None\<rparr>"

definition example_points :: "point list" where
  "example_points = map point_at [0, 1, 2, 3]"

text \<open>
  A graph before \<^verbatim>\<open>init\<close>: series, metadata and the size of an empty container.
\<close>

definition example_graph :: "real list list \<Rightarrow> meta list \<Rightarrow> nat \<Rightarrow> nat \<Rightarrow> AreaGraph" where
  "example_graph series metas width height =
     \<lparr>container = \<lparr>clientWidth = width, clientHeight = height\<rparr>, childNodes = [],
      data = \<lparr>areas = series, areaMeta = metas\<rparr>, stack = []\<rparr>"

text \<open>Three series of length 5 with their metadata, in a container of 200 by 100 pixels.\<close>

definition example_three_series :: AreaGraph where
  "example_three_series =
     example_graph [[1, 1, 2, 3, 3], [0, 2, 4, 2, 0], [5, 4, 3, 2, 1]]
       [NoStyle, ClassNames ''area--blue-light'', ClassNames ''area--green-dark''] 200 100"

text \<open>
  The graph of the series \<open>[[1, 2], [3, 4]]\<close> in a container of 200 by 100 pixels, with the
  stack that \<^verbatim>\<open>updateStack\<close> builds for it.
\<close>

definition example_stack :: "point list list" where
  "example_stack =
     [[\<lparr>y0 = 0, y1 = 1, coords = \<lparr>x_coord = 0, y_coord = 1\<rparr>, meta = Some NoStyle\<rparr>,
       \<lparr>y0 = 0, y1 = 2, coords = \<lparr>x_coord = 1, y_coord = 2\<rparr>, meta = Some NoStyle\<rparr>],
      [\<lparr>y0 = 1, y1 = 4, coords = \<lparr>x_coord = 0, y_coord = 4\<rparr>, meta = Some (ClassNames ''area--blue-light'')\<rparr>,
       \<lparr>y0 = 2, y1 = 6, coords = \<lparr>x_coord = 1, y_coord = 6\<rparr>, meta = Some (ClassNames ''area--blue-light'')\<rparr>]]"

definition example_stacked :: AreaGraph where
  "example_stacked =
     (example_graph [[1, 2], [3, 4]] [NoStyle, ClassNames ''area--blue-light''] 200 100)
       \<lparr>stack := example_stack\<rparr>"

text \<open>A graph of one series of three values in a container of width zero.\<close>

definition example_zero_width :: AreaGraph where
  "example_zero_width = example_graph [[1, 2, 3]] [NoStyle] 0 100"

text \<open>
  The graph of the series \<open>[[1, 2], [3, 4]]\<close> as its constructor leaves it in a container of
  200 by 100 pixels that held one node before: the \<^verbatim>\<open>svg\<close> drawn, with two paths in each
  layer, follows that node.
\<close>

definition example_svg :: svg where
  "example_svg =
     \<lparr>svg_height = 100, svg_width = 200,
      layers =
        [(''areas'',
          [AreaPath [(0, 100, 505 / 6), (200, 100, 205 / 3)] [],
           AreaPath [(0, 505 / 6, 110 / 3), (200, 205 / 3, 5)] ''area--blue-light'']),
         (''borders'',
          [BorderPath [(0, 505 / 6), (200, 205 / 3)],
           BorderPath [(0, 110 / 3), (200, 5)]])]\<rparr>"

definition example_rendered :: AreaGraph where
  "example_rendered =
     \<lparr>container = \<lparr>clientWidth = 200, clientHeight = 100\<rparr>,
      childNodes = [OtherNode, SvgNode example_svg],
      data = \<lparr>areas = [[1, 2], [3, 4]], areaMeta = [NoStyle, ClassNames ''area--blue-light'']\<rparr>,
      stack = example_stack\<rparr>"

text \<open>The \<^verbatim>\<open>svg\<close> that \<^verbatim>\<open>render\<close> appends when the stack has no series: two layers, no path.\<close>

definition empty_svg :: "container \<Rightarrow> svg" where
  "empty_svg element =
     \<lparr>svg_height = clientHeight element, svg_width = clientWidth element,
      layers = [(''areas'', []), (''borders'', [])]\<rparr>"



text \<open>Two curves: x falls, or grows, with the position along the curve.\<close>

definition descending_curve :: "real \<Rightarrow> xy" where
  "descending_curve s = \<lparr>x_coord = 100 - s, y_coord = 0\<rparr>"

definition ascending_curve :: "real \<Rightarrow> xy" where
  "ascending_curve s = \<lparr>x_coord = s, y_coord = 0\<rparr>"

section \<open>Properties of curves\<close>

text \<open>The x-coordinate strictly grows, or strictly falls, along the curve between two positions.\<close>

definition strictly_increasing_x :: "real \<Rightarrow> real \<Rightarrow> (real \<Rightarrow> xy) \<Rightarrow> bool" where
  "strictly_increasing_x left right pointFunc \<longleftrightarrow>
     (\<forall>a b. left \<le> a \<and> a < b \<and> b \<le> right \<longrightarrow> x_coord (pointFunc a) < x_coord (pointFunc b))"

definition strictly_decreasing_x :: "real \<Rightarrow> real \<Rightarrow> (real \<Rightarrow> xy) \<Rightarrow> bool" where
  "strictly_decreasing_x left right pointFunc \<longleftrightarrow>
     (\<forall>a b. left \<le> a \<and> a < b \<and> b \<le> right \<longrightarrow> x_coord (pointFunc b) < x_coord (pointFunc a))"

section \<open>Nearest-neighbour search\<close>

lemma foldl_keeps:
  "\<forall>p\<in>set ps. \<not> c a p \<Longrightarrow> (\<And>a p. \<not> c a p \<Longrightarrow> f a p = a) \<Longrightarrow> (\<And>a b p. \<not> c a p \<Longrightarrow> \<not> c b p) \<Longrightarrow> foldl f a ps = a"
  by (induction ps arbitrary: a) auto

lemma left_fold:
  "sorted (map (\<lambda>p. x_coord (coords p)) (a # ps)) \<Longrightarrow>
   foldl (\<lambda>accumulator currentValue.
                 if x_coord (coords currentValue) < referencePointX
                    \<and> x_coord (coords currentValue) \<ge> x_coord (coords accumulator)
                 then currentValue else accumulator) a ps
   = last (a # filter (\<lambda>p. x_coord (coords p) < referencePointX) ps)"
proof (induction ps arbitrary: a)
  case Nil
  then show ?case by simp
next
  case (Cons q qs)
  show ?case
  proof (cases "x_coord (coords q) < referencePointX")
    case True
    have "x_coord (coords a) \<le> x_coord (coords q)" using Cons.prems by simp
    moreover have "sorted (map (\<lambda>p. x_coord (coords p)) (q # qs))" using Cons.prems by simp
    ultimately show ?thesis using True Cons.IH[of q] by simp
  next
    case False
    have "sorted (map (\<lambda>p. x_coord (coords p)) (a # qs))" using Cons.prems by auto
    then show ?thesis using False Cons.IH[of a] by simp
  qed
qed

lemma right_fold:
  "sorted (rev (map (\<lambda>p. x_coord (coords p)) (a # ps))) \<Longrightarrow>
   foldl (\<lambda>accumulator currentValue.
                 if x_coord (coords currentValue) \<ge> referencePointX
                    \<and> x_coord (coords currentValue) \<le> x_coord (coords accumulator)
                 then currentValue else accumulator) a ps
   = last (a # filter (\<lambda>p. referencePointX \<le> x_coord (coords p)) ps)"
proof (induction ps arbitrary: a)
  case Nil
  then show ?case by simp
next
  case (Cons q qs)
  show ?case
  proof (cases "referencePointX \<le> x_coord (coords q)")
    case True
    have "x_coord (coords q) \<le> x_coord (coords a)" using Cons.prems by (simp add: sorted_append)
    moreover have "sorted (rev (map (\<lambda>p. x_coord (coords p)) (q # qs)))" using Cons.prems by (simp add: sorted_append)
    ultimately show ?thesis using True Cons.IH[of q] by simp
  next
    case False
    have "sorted (rev (map (\<lambda>p. x_coord (coords p)) (a # qs)))" using Cons.prems by (auto simp add: sorted_append)
    then show ?thesis using False Cons.IH[of a] by simp
  qed
qed


lemma findClosestPointLeft_last:
  assumes "sorted (map (\<lambda>p. x_coord (coords p)) dat)"
    and "\<exists>p\<in>set dat. x_coord (coords p) < referencePointX"
  shows "findClosestPointLeft dat referencePointX
         = Inr (last (filter (\<lambda>p. x_coord (coords p) < referencePointX) dat))"
proof (cases dat)
  case Nil
  then show ?thesis using assms by simp
next
  case (Cons a ps)
  obtain p where p: "p \<in> set dat" "x_coord (coords p) < referencePointX"
    using assms(2) by blast
  have "x_coord (coords a) \<le> x_coord (coords p)"
    using assms(1) p(1) Cons by auto
  then have "x_coord (coords a) < referencePointX"
    using p(2) by simp
  then show ?thesis
    using left_fold [of a ps referencePointX] assms(1) Cons
    by (simp add: findClosestPointLeft_def)
qed

lemma findClosestPointRight_hd:
  assumes "sorted (map (\<lambda>p. x_coord (coords p)) dat)"
    and "\<exists>p\<in>set dat. referencePointX \<le> x_coord (coords p)"
  shows "findClosestPointRight dat referencePointX
         = Inr (hd (filter (\<lambda>p. referencePointX \<le> x_coord (coords p)) dat))"
proof (cases "rev dat")
  case Nil
  then show ?thesis using assms by simp
next
  case (Cons a ps)
  then have dat: "dat = rev ps @ [a]"
    by (metis rev.simps(2) rev_rev_ident)
  obtain p where p: "p \<in> set dat" "referencePointX \<le> x_coord (coords p)"
    using assms(2) by blast
  have "x_coord (coords p) \<le> x_coord (coords a)"
    using assms(1) p(1) by (auto simp: dat sorted_append)
  then have a: "referencePointX \<le> x_coord (coords a)"
    using p(2) by simp
  have "sorted (rev (map (\<lambda>p. x_coord (coords p)) (a # ps)))"
    using assms(1) by (simp add: dat rev_map)
  then have "findClosestPointRight dat referencePointX
      = Inr (last (a # filter (\<lambda>p. referencePointX \<le> x_coord (coords p)) ps))"
    using right_fold [of a ps referencePointX] Cons
    by (simp add: findClosestPointRight_def)
  also have "last (a # filter (\<lambda>p. referencePointX \<le> x_coord (coords p)) ps)
      = hd (rev (a # filter (\<lambda>p. referencePointX \<le> x_coord (coords p)) ps))"
    by (simp add: hd_rev)
  also have "rev (a # filter (\<lambda>p. referencePointX \<le> x_coord (coords p)) ps)
      = filter (\<lambda>p. referencePointX \<le> x_coord (coords p)) dat"
    using a by (simp add: dat rev_filter)
  finally show ?thesis .
qed

lemma sorted_filter_last_greatest:
  assumes "sorted (map f xs)" and "q \<in> set xs" and "P q"
  shows "f q \<le> f (last (filter P xs))"
proof -
  have s: "sorted (map f (filter P xs))"
    using assms(1) by (simp add: sorted_filter)
  have q: "q \<in> set (filter P xs)"
    using assms by simp
  then have ne: "filter P xs \<noteq> []" by (metis empty_iff empty_set)
  have "filter P xs = butlast (filter P xs) @ [last (filter P xs)]"
    using ne by simp
  then have "sorted (map f (butlast (filter P xs) @ [last (filter P xs)]))"
    using s by simp
  then have "\<forall>z\<in>set (butlast (filter P xs)). f z \<le> f (last (filter P xs))"
    by (simp add: sorted_append)
  moreover have "q \<in> set (butlast (filter P xs)) \<or> q = last (filter P xs)"
    using q ne by (metis Un_iff append_butlast_last_id empty_iff empty_set set_ConsD set_append)
  ultimately show ?thesis by auto
qed

lemma sorted_filter_hd_least:
  assumes "sorted (map f xs)" and "q \<in> set xs" and "P q"
  shows "f (hd (filter P xs)) \<le> f q"
proof -
  have s: "sorted (map f (filter P xs))"
    using assms(1) by (simp add: sorted_filter)
  have q: "q \<in> set (filter P xs)"
    using assms by simp
  then obtain z zs where z: "filter P xs = z # zs"
    by (cases "filter P xs") auto
  then show ?thesis
    using s q by auto
qed


lemma example_points_sorted: "sorted (map (\<lambda>p. x_coord (coords p)) example_points)"
  by (simp add: example_points_def point_at_def)

text \<open>
  Claim C2, as stated, at the points with x-coordinates \<open>0, 1, 2, 3\<close>: for the reference
  \<open>0\<close> no point lies strictly to the left, and \<^verbatim>\<open>findClosestPointLeft\<close> returns the point
  at \<open>0\<close>, whose x is not strictly less than the reference; for the reference \<open>4\<close> no
  point lies at or to the right, and \<^verbatim>\<open>findClosestPointRight\<close> returns the point at \<open>3\<close>,
  whose x is not greater than or equal to the reference.
\<close>

theorem nearest_neighbour_no_qualifying_point:
  "findClosestPointLeft example_points 0 = Inr (point_at 0)
   \<and> \<not> x_coord (coords (point_at 0)) < 0
   \<and> findClosestPointRight example_points 4 = Inr (point_at 3)
   \<and> \<not> 4 \<le> x_coord (coords (point_at 3))"
  by (simp add: findClosestPointLeft_def findClosestPointRight_def example_points_def point_at_def)

text \<open>
  Claim C2, amended: for every sequence of points sorted ascending by \<^verbatim>\<open>coords.x\<close> and every
  reference, if some point has an x strictly less than the reference then
  \<^verbatim>\<open>findClosestPointLeft\<close> returns a point of the sequence with the largest x strictly less
  than the reference, and if some point has an x greater than or equal to the reference
  then \<^verbatim>\<open>findClosestPointRight\<close> returns a point of the sequence with the smallest x greater
  than or equal to the reference. For the x-coordinates \<open>0, 1, 2, 3\<close> and the reference
  \<open>1.5\<close> these are the points at \<open>1\<close> and at \<open>2\<close>, and for the reference \<open>2\<close> the right
  one is the point at \<open>2\<close>.
\<close>

theorem nearest_neighbour_when_qualifying:
  assumes "sorted (map (\<lambda>p. x_coord (coords p)) dat)"
  shows "((\<exists>p\<in>set dat. x_coord (coords p) < referencePointX) \<longrightarrow>
            (\<exists>found. findClosestPointLeft dat referencePointX = Inr found
               \<and> found \<in> set dat
               \<and> x_coord (coords found) < referencePointX
               \<and> (\<forall>q\<in>set dat. x_coord (coords q) < referencePointX
                     \<longrightarrow> x_coord (coords q) \<le> x_coord (coords found))))
       \<and> ((\<exists>p\<in>set dat. referencePointX \<le> x_coord (coords p)) \<longrightarrow>
            (\<exists>found. findClosestPointRight dat referencePointX = Inr found
               \<and> found \<in> set dat
               \<and> referencePointX \<le> x_coord (coords found)
               \<and> (\<forall>q\<in>set dat. referencePointX \<le> x_coord (coords q)
                     \<longrightarrow> x_coord (coords found) \<le> x_coord (coords q))))
       \<and> findClosestPointLeft example_points (3 / 2) = Inr (point_at 1)
       \<and> findClosestPointRight example_points (3 / 2) = Inr (point_at 2)
       \<and> findClosestPointRight example_points 2 = Inr (point_at 2)"
proof (intro conjI impI)
  assume ex: "\<exists>p\<in>set dat. x_coord (coords p) < referencePointX"
  let ?found = "last (filter (\<lambda>p. x_coord (coords p) < referencePointX) dat)"
  have ne: "filter (\<lambda>p. x_coord (coords p) < referencePointX) dat \<noteq> []"
    using ex by (simp add: filter_empty_conv)
  have "?found \<in> set (filter (\<lambda>p. x_coord (coords p) < referencePointX) dat)"
    using ne by (rule last_in_set)
  then have found: "?found \<in> set dat" "x_coord (coords ?found) < referencePointX"
    by simp_all
  have greatest: "\<forall>q\<in>set dat. x_coord (coords q) < referencePointX
      \<longrightarrow> x_coord (coords q) \<le> x_coord (coords ?found)"
  proof (intro ballI impI)
    fix q
    assume "q \<in> set dat" and "x_coord (coords q) < referencePointX"
    then show "x_coord (coords q) \<le> x_coord (coords ?found)"
      by (rule sorted_filter_last_greatest
            [OF assms, where P = "\<lambda>p. x_coord (coords p) < referencePointX"])
  qed
  show "\<exists>found. findClosestPointLeft dat referencePointX = Inr found
               \<and> found \<in> set dat
               \<and> x_coord (coords found) < referencePointX
               \<and> (\<forall>q\<in>set dat. x_coord (coords q) < referencePointX
                     \<longrightarrow> x_coord (coords q) \<le> x_coord (coords found))"
    by (intro exI [of _ ?found] conjI findClosestPointLeft_last [OF assms ex] found greatest)
next
  assume ex: "\<exists>p\<in>set dat. referencePointX \<le> x_coord (coords p)"
  let ?found = "hd (filter (\<lambda>p. referencePointX \<le> x_coord (coords p)) dat)"
  have ne: "filter (\<lambda>p. referencePointX \<le> x_coord (coords p)) dat \<noteq> []"
    using ex by (simp add: filter_empty_conv)
  have "?found \<in> set (filter (\<lambda>p. referencePointX \<le> x_coord (coords p)) dat)"
    using ne by (rule hd_in_set)
  then have found: "?found \<in> set dat" "referencePointX \<le> x_coord (coords ?found)"
    by simp_all
  have least: "\<forall>q\<in>set dat. referencePointX \<le> x_coord (coords q)
      \<longrightarrow> x_coord (coords ?found) \<le> x_coord (coords q)"
  proof (intro ballI impI)
    fix q
    assume "q \<in> set dat" and "referencePointX \<le> x_coord (coords q)"
    then show "x_coord (coords ?found) \<le> x_coord (coords q)"
      by (rule sorted_filter_hd_least
            [OF assms, where P = "\<lambda>p. referencePointX \<le> x_coord (coords p)"])
  qed
  show "\<exists>found. findClosestPointRight dat referencePointX = Inr found
               \<and> found \<in> set dat
               \<and> referencePointX \<le> x_coord (coords found)
               \<and> (\<forall>q\<in>set dat. referencePointX \<le> x_coord (coords q)
                     \<longrightarrow> x_coord (coords found) \<le> x_coord (coords q))"
    by (intro exI [of _ ?found] conjI findClosestPointRight_hd [OF assms ex] found least)
next
  show "findClosestPointLeft example_points (3 / 2) = Inr (point_at 1)"
    by (simp add: findClosestPointLeft_def example_points_def point_at_def)
next
  show "findClosestPointRight example_points (3 / 2) = Inr (point_at 2)"
    by (simp add: findClosestPointRight_def example_points_def point_at_def)
next
  show "findClosestPointRight example_points 2 = Inr (point_at 2)"
    by (simp add: findClosestPointRight_def example_points_def point_at_def)
qed

text \<open>The amended claim C2 at the points \<open>0, 1, 2, 3\<close> and the reference \<open>1.5\<close>.\<close>

theorem nearest_neighbour_when_qualifying_witness:
  "sorted (map (\<lambda>p. x_coord (coords p)) example_points)
   \<and> (\<exists>p\<in>set example_points. x_coord (coords p) < 3 / 2)
   \<and> (\<exists>p\<in>set example_points. 3 / 2 \<le> x_coord (coords p))
   \<and> (\<exists>found. findClosestPointLeft example_points (3 / 2) = Inr found
               \<and> found \<in> set example_points
               \<and> x_coord (coords found) < 3 / 2
               \<and> (\<forall>q\<in>set example_points. x_coord (coords q) < 3 / 2
                     \<longrightarrow> x_coord (coords q) \<le> x_coord (coords found)))
   \<and> (\<exists>found. findClosestPointRight example_points (3 / 2) = Inr found
               \<and> found \<in> set example_points
               \<and> 3 / 2 \<le> x_coord (coords found)
               \<and> (\<forall>q\<in>set example_points. 3 / 2 \<le> x_coord (coords q)
                     \<longrightarrow> x_coord (coords found) \<le> x_coord (coords q)))"
proof -
  have l: "\<exists>p\<in>set example_points. x_coord (coords p) < 3 / 2"
    by (simp add: example_points_def point_at_def)
  have r: "\<exists>p\<in>set example_points. 3 / 2 \<le> x_coord (coords p)"
    by (simp add: example_points_def point_at_def)
  note inst = nearest_neighbour_when_qualifying [OF example_points_sorted, of "3 / 2"]
  from inst have "(\<exists>p\<in>set example_points. x_coord (coords p) < 3 / 2) \<longrightarrow>
     (\<exists>found. findClosestPointLeft example_points (3 / 2) = Inr found
               \<and> found \<in> set example_points
               \<and> x_coord (coords found) < 3 / 2
               \<and> (\<forall>q\<in>set example_points. x_coord (coords q) < 3 / 2
                     \<longrightarrow> x_coord (coords q) \<le> x_coord (coords found)))"
    by (rule conjunct1)
  then have left: "\<exists>found. findClosestPointLeft example_points (3 / 2) = Inr found
               \<and> found \<in> set example_points
               \<and> x_coord (coords found) < 3 / 2
               \<and> (\<forall>q\<in>set example_points. x_coord (coords q) < 3 / 2
                     \<longrightarrow> x_coord (coords q) \<le> x_coord (coords found))"
    using l by (rule mp)
  from inst have "(\<exists>p\<in>set example_points. 3 / 2 \<le> x_coord (coords p)) \<longrightarrow>
     (\<exists>found. findClosestPointRight example_points (3 / 2) = Inr found
               \<and> found \<in> set example_points
               \<and> 3 / 2 \<le> x_coord (coords found)
               \<and> (\<forall>q\<in>set example_points. 3 / 2 \<le> x_coord (coords q)
                     \<longrightarrow> x_coord (coords found) \<le> x_coord (coords q)))"
    by (rule conjunct2 [THEN conjunct1])
  then have right: "\<exists>found. findClosestPointRight example_points (3 / 2) = Inr found
               \<and> found \<in> set example_points
               \<and> 3 / 2 \<le> x_coord (coords found)
               \<and> (\<forall>q\<in>set example_points. 3 / 2 \<le> x_coord (coords q)
                     \<longrightarrow> x_coord (coords found) \<le> x_coord (coords q))"
    using r by (rule mp)
  show ?thesis
    using example_points_sorted l r left right by simp
qed

text \<open>
  Claim C10: for every non-empty sequence of points, if every point's x is greater than or
  equal to the reference then \<^verbatim>\<open>findClosestPointLeft\<close> returns the first point, whose x is
  not strictly less than the reference; and if every point's x is strictly less than the
  reference then \<^verbatim>\<open>findClosestPointRight\<close> returns the last point, whose x is not greater
  than or equal to the reference. The sequence need not even be sorted for this.
\<close>

theorem nearest_neighbour_fallback:
  assumes "dat \<noteq> []"
  shows "((\<forall>p\<in>set dat. referencePointX \<le> x_coord (coords p)) \<longrightarrow>
            findClosestPointLeft dat referencePointX = Inr (hd dat)
            \<and> \<not> x_coord (coords (hd dat)) < referencePointX)
       \<and> ((\<forall>p\<in>set dat. x_coord (coords p) < referencePointX) \<longrightarrow>
            findClosestPointRight dat referencePointX = Inr (last dat)
            \<and> \<not> referencePointX \<le> x_coord (coords (last dat)))"
proof (intro conjI impI)
  assume all: "\<forall>p\<in>set dat. referencePointX \<le> x_coord (coords p)"
  obtain a ps where dat: "dat = a # ps"
    using assms by (cases dat) auto
  have "foldl (\<lambda>accumulator currentValue.
                 if x_coord (coords currentValue) < referencePointX
                    \<and> x_coord (coords currentValue) \<ge> x_coord (coords accumulator)
                 then currentValue else accumulator) a ps = a"
    using all unfolding dat
    by (intro foldl_keeps [where c = "\<lambda>a p. x_coord (coords p) < referencePointX"]) auto
  then show "findClosestPointLeft dat referencePointX = Inr (hd dat)"
    by (simp add: findClosestPointLeft_def dat)
  show "\<not> x_coord (coords (hd dat)) < referencePointX"
    using all dat by auto
next
  assume all: "\<forall>p\<in>set dat. x_coord (coords p) < referencePointX"
  obtain a ps where rdat: "rev dat = a # ps"
    using assms by (cases "rev dat") auto
  then have dat: "dat = rev ps @ [a]"
    by (metis rev.simps(2) rev_rev_ident)
  have "foldl (\<lambda>accumulator currentValue.
                 if x_coord (coords currentValue) \<ge> referencePointX
                    \<and> x_coord (coords currentValue) \<le> x_coord (coords accumulator)
                 then currentValue else accumulator) a ps = a"
    using all unfolding dat
    by (intro foldl_keeps [where c = "\<lambda>a p. referencePointX \<le> x_coord (coords p)"]) auto
  then show "findClosestPointRight dat referencePointX = Inr (last dat)"
    using rdat by (simp add: findClosestPointRight_def dat)
  show "\<not> referencePointX \<le> x_coord (coords (last dat))"
    using all dat by auto
qed

text \<open>
  Claim C10 at the points \<open>0, 1, 2, 3\<close>: all of them are at or right of the reference
  \<open>0\<close>, and all of them are strictly left of the reference \<open>4\<close>.
\<close>

theorem nearest_neighbour_fallback_witness:
  "example_points \<noteq> []
   \<and> findClosestPointLeft example_points 0 = Inr (hd example_points)
   \<and> \<not> x_coord (coords (hd example_points)) < 0
   \<and> findClosestPointRight example_points 4 = Inr (last example_points)
   \<and> \<not> 4 \<le> x_coord (coords (last example_points))"
proof -
  have ne: "example_points \<noteq> []"
    by (simp add: example_points_def)
  have l: "\<forall>p\<in>set example_points. 0 \<le> x_coord (coords p)"
    by (simp add: example_points_def point_at_def)
  have r: "\<forall>p\<in>set example_points. x_coord (coords p) < 4"
    by (simp add: example_points_def point_at_def)
  have left: "findClosestPointLeft example_points 0 = Inr (hd example_points)
      \<and> \<not> x_coord (coords (hd example_points)) < 0"
    using nearest_neighbour_fallback [OF ne, of 0, THEN conjunct1] l by (rule mp)
  have right: "findClosestPointRight example_points 4 = Inr (last example_points)
      \<and> \<not> 4 \<le> x_coord (coords (last example_points))"
    using nearest_neighbour_fallback [OF ne, of 4, THEN conjunct2] r by (rule mp)
  show ?thesis
    using ne left right by simp
qed

section \<open>Bisection\<close>

declare findClosestPointVertically.simps [simp del]
declare findClosestPointVertically_calls.simps [simp del]

lemma fcpv_stop:
  "\<bar>right - left\<bar> \<le> 1 / 2 \<Longrightarrow>
   findClosestPointVertically left right xValue pointFunc = pointFunc ((left + right) / 2)"
  by (subst findClosestPointVertically.simps) (simp add: Let_def)

lemma fcpv_go_right:
  "\<not> \<bar>right - left\<bar> \<le> 1 / 2 \<Longrightarrow> x_coord (pointFunc ((left + right) / 2)) \<le> xValue \<Longrightarrow>
   findClosestPointVertically left right xValue pointFunc
   = findClosestPointVertically ((left + right) / 2) right xValue pointFunc"
  by (subst findClosestPointVertically.simps) (simp add: Let_def)

lemma fcpv_go_left:
  "\<not> \<bar>right - left\<bar> \<le> 1 / 2 \<Longrightarrow> \<not> x_coord (pointFunc ((left + right) / 2)) \<le> xValue \<Longrightarrow>
   findClosestPointVertically left right xValue pointFunc
   = findClosestPointVertically left ((left + right) / 2) xValue pointFunc"
  by (subst findClosestPointVertically.simps) (simp add: Let_def)

lemma calls_stop:
  "\<bar>right - left\<bar> \<le> 1 / 2 \<Longrightarrow>
   findClosestPointVertically_calls left right xValue pointFunc = [(left, right)]"
  by (subst findClosestPointVertically_calls.simps) (simp add: Let_def)

lemma calls_go_right:
  "\<not> \<bar>right - left\<bar> \<le> 1 / 2 \<Longrightarrow> x_coord (pointFunc ((left + right) / 2)) \<le> xValue \<Longrightarrow>
   findClosestPointVertically_calls left right xValue pointFunc
   = (left, right) # findClosestPointVertically_calls ((left + right) / 2) right xValue pointFunc"
  by (subst findClosestPointVertically_calls.simps) (simp add: Let_def)

lemma calls_go_left:
  "\<not> \<bar>right - left\<bar> \<le> 1 / 2 \<Longrightarrow> \<not> x_coord (pointFunc ((left + right) / 2)) \<le> xValue \<Longrightarrow>
   findClosestPointVertically_calls left right xValue pointFunc
   = (left, right) # findClosestPointVertically_calls left ((left + right) / 2) xValue pointFunc"
  by (subst findClosestPointVertically_calls.simps) (simp add: Let_def)

lemma calls_nonempty: "findClosestPointVertically_calls left right xValue pointFunc \<noteq> []"
  by (subst findClosestPointVertically_calls.simps) (simp add: Let_def)

lemma bisection_cases [case_names stop right left]:
  fixes left right xValue :: real and pointFunc :: "real \<Rightarrow> xy"
  assumes "\<And>left right xValue pointFunc. \<bar>right - left\<bar> \<le> 1 / 2 \<Longrightarrow> P left right xValue pointFunc"
    and "\<And>left right xValue pointFunc.
           \<not> \<bar>right - left\<bar> \<le> 1 / 2 \<Longrightarrow> x_coord (pointFunc ((left + right) / 2)) \<le> xValue \<Longrightarrow>
           P ((left + right) / 2) right xValue pointFunc \<Longrightarrow> P left right xValue pointFunc"
    and "\<And>left right xValue pointFunc.
           \<not> \<bar>right - left\<bar> \<le> 1 / 2 \<Longrightarrow> \<not> x_coord (pointFunc ((left + right) / 2)) \<le> xValue \<Longrightarrow>
           P left ((left + right) / 2) xValue pointFunc \<Longrightarrow> P left right xValue pointFunc"
  shows "P left right xValue pointFunc"
proof (induction left right xValue pointFunc rule: findClosestPointVertically.induct)
  case (1 left right xValue pointFunc)
  show ?case
  proof (cases "\<bar>right - left\<bar> \<le> 1 / 2")
    case True
    then show ?thesis by (rule assms(1))
  next
    case far: False
    show ?thesis
    proof (cases "x_coord (pointFunc ((left + right) / 2)) \<le> xValue")
      case True
      show ?thesis
        by (rule assms(2), rule far, rule True, rule "1.IH"(1) [OF refl refl refl refl far True])
    next
      case False
      show ?thesis
        by (rule assms(3), rule far, rule False, rule "1.IH"(2) [OF refl refl refl refl far False])
    qed
  qed
qed

lemma result_at_last_call:
  "findClosestPointVertically left right xValue pointFunc
   = pointFunc ((fst (last (findClosestPointVertically_calls left right xValue pointFunc))
                 + snd (last (findClosestPointVertically_calls left right xValue pointFunc))) / 2)"
proof (induction left right xValue pointFunc rule: bisection_cases)
  case (stop left right xValue pointFunc)
  then show ?case by (simp add: fcpv_stop calls_stop)
next
  case (right left right xValue pointFunc)
  then show ?case by (simp add: fcpv_go_right calls_go_right calls_nonempty)
next
  case (left left right xValue pointFunc)
  then show ?case by (simp add: fcpv_go_left calls_go_left calls_nonempty)
qed

lemma bisection_encloses:
  assumes "\<forall>a b. left \<le> a \<and> a < b \<and> b \<le> right \<longrightarrow> x_coord (pointFunc a) < x_coord (pointFunc b)"
    and "left \<le> s" and "s \<le> right" and "x_coord (pointFunc s) = xValue"
  shows "\<exists>t. findClosestPointVertically left right xValue pointFunc = pointFunc t
             \<and> left \<le> t \<and> t \<le> right \<and> \<bar>t - s\<bar> \<le> 1 / 4"
  using assms
proof (induction left right xValue pointFunc rule: bisection_cases)
  case (stop left right xValue pointFunc)
  have "\<bar>(left + right) / 2 - s\<bar> \<le> 1 / 4"
    using stop by (simp add: abs_if field_simps split: if_splits)
  moreover have "left \<le> (left + right) / 2" "(left + right) / 2 \<le> right"
    using stop by simp_all
  ultimately show ?case
    using stop(1) by (auto simp: fcpv_stop)
next
  case (right left right xValue pointFunc)
  let ?split = "(left + right) / 2"
  have lr: "left \<le> right" using right by simp
  have "?split \<le> s"
  proof (rule ccontr)
    assume "\<not> ?split \<le> s"
    then have "s < ?split" by simp
    moreover have "?split \<le> right" using lr by simp
    ultimately have "x_coord (pointFunc s) < x_coord (pointFunc ?split)"
      using right.prems(1,2) by blast
    then show False using right.hyps(2) right.prems(4) by simp
  qed
  moreover have "\<forall>a b. ?split \<le> a \<and> a < b \<and> b \<le> right \<longrightarrow> x_coord (pointFunc a) < x_coord (pointFunc b)"
  proof (intro allI impI)
    fix a b
    assume "?split \<le> a \<and> a < b \<and> b \<le> right"
    then have "left \<le> a \<and> a < b \<and> b \<le> right"
      using lr by simp
    then show "x_coord (pointFunc a) < x_coord (pointFunc b)"
      using right.prems(1) by blast
  qed
  ultimately obtain t where t: "findClosestPointVertically ?split right xValue pointFunc = pointFunc t"
      "?split \<le> t" "t \<le> right" "\<bar>t - s\<bar> \<le> 1 / 4"
    using right.IH right.prems(3,4) by blast
  have "left \<le> t" using t(2) lr by simp
  then show ?case
    using t right.hyps by (auto simp: fcpv_go_right)
next
  case (left left right xValue pointFunc)
  let ?split = "(left + right) / 2"
  have lr: "left \<le> right" using left by simp
  have "s \<le> ?split"
  proof (rule ccontr)
    assume "\<not> s \<le> ?split"
    then have "?split < s" by simp
    moreover have "left \<le> ?split" using lr by simp
    ultimately have "x_coord (pointFunc ?split) < x_coord (pointFunc s)"
      using left.prems(1,3) by blast
    then show False using left.hyps(2) left.prems(4) by simp
  qed
  moreover have "\<forall>a b. left \<le> a \<and> a < b \<and> b \<le> ?split \<longrightarrow> x_coord (pointFunc a) < x_coord (pointFunc b)"
  proof (intro allI impI)
    fix a b
    assume "left \<le> a \<and> a < b \<and> b \<le> ?split"
    then have "left \<le> a \<and> a < b \<and> b \<le> right"
      using lr by simp
    then show "x_coord (pointFunc a) < x_coord (pointFunc b)"
      using left.prems(1) by blast
  qed
  ultimately obtain t where t: "findClosestPointVertically left ?split xValue pointFunc = pointFunc t"
      "left \<le> t" "t \<le> ?split" "\<bar>t - s\<bar> \<le> 1 / 4"
    using left.IH left.prems(2,4) by blast
  have "t \<le> right" using t(3) lr by simp
  then show ?case
    using t left.hyps by (auto simp: fcpv_go_left)
qed

lemma log_quarter: "log 2 (1 / 4) = - 2"
proof -
  have "log 2 (1 / 4) = log 2 (2 powr (- 2))"
    by (simp add: powr_minus_divide)
  also have "\<dots> = - 2"
    by (simp only: log_powr_cancel) 
  finally show ?thesis .
qed

lemma log_pos_two:
  fixes v :: real
  assumes "1 < v"
  shows "0 < log 2 v"
  using assms by (subst zero_less_log_cancel_iff) simp_all

lemma log_double:
  fixes w :: real
  assumes "0 < w"
  shows "\<lceil>log 2 (2 * w)\<rceil> = \<lceil>log 2 w\<rceil> + 1"
proof -
  have "log 2 (2 * w) = log 2 w + 1"
    using assms by (simp add: log_mult)
  then show ?thesis by simp
qed

lemma calls_bound:
  assumes "1 / 2 < \<bar>right - left\<bar>"
  shows "int (length (findClosestPointVertically_calls left right xValue pointFunc))
         \<le> \<lceil>log 2 (\<bar>right - left\<bar> / (1 / 2))\<rceil> + 1"
  using assms
proof (induction left right xValue pointFunc rule: bisection_cases)
  case (stop left right xValue pointFunc)
  then show ?case by simp
next
  case (right left right xValue pointFunc)
  let ?split = "(left + right) / 2"
  have w: "\<bar>right - ?split\<bar> = \<bar>right - left\<bar> / 2"
    by (simp add: field_simps abs_if)
  show ?case
  proof (cases "\<bar>right - ?split\<bar> \<le> 1 / 2")
    case True
    have "1 < \<bar>right - left\<bar> / (1 / 2)"
      using right.prems by simp
    then have "0 < log 2 (\<bar>right - left\<bar> / (1 / 2))"
      by (rule log_pos_two)
    then have ge: "1 \<le> \<lceil>log 2 (\<bar>right - left\<bar> / (1 / 2))\<rceil>"
      by linarith
    have "int (length (findClosestPointVertically_calls left right xValue pointFunc)) = 2"
      using True right.hyps by (simp add: calls_go_right calls_stop)
    then show ?thesis
      using ge by linarith
  next
    case False
    then have "int (length (findClosestPointVertically_calls ?split right xValue pointFunc))
        \<le> \<lceil>log 2 (\<bar>right - ?split\<bar> / (1 / 2))\<rceil> + 1"
      using right.IH by simp
    also have "\<bar>right - ?split\<bar> / (1 / 2) = \<bar>right - left\<bar>"
      using w by simp
    finally have "int (length (findClosestPointVertically_calls ?split right xValue pointFunc))
        \<le> \<lceil>log 2 \<bar>right - left\<bar>\<rceil> + 1" .
    moreover have "\<lceil>log 2 (\<bar>right - left\<bar> / (1 / 2))\<rceil> = \<lceil>log 2 \<bar>right - left\<bar>\<rceil> + 1"
    proof -
      have "0 < \<bar>right - left\<bar>" using right.prems by linarith
      then have "\<lceil>log 2 (2 * \<bar>right - left\<bar>)\<rceil> = \<lceil>log 2 \<bar>right - left\<bar>\<rceil> + 1"
        by (rule log_double)
      moreover have "\<bar>right - left\<bar> / (1 / 2) = 2 * \<bar>right - left\<bar>" by simp
      ultimately show ?thesis by (simp only:)
    qed
    moreover have "int (length (findClosestPointVertically_calls left right xValue pointFunc))
        = int (length (findClosestPointVertically_calls ?split right xValue pointFunc)) + 1"
      using right.hyps by (simp add: calls_go_right)
    ultimately show ?thesis
      by linarith
  qed
next
  case (left left right xValue pointFunc)
  let ?split = "(left + right) / 2"
  have w: "\<bar>?split - left\<bar> = \<bar>right - left\<bar> / 2"
    by (simp add: field_simps abs_if)
  show ?case
  proof (cases "\<bar>?split - left\<bar> \<le> 1 / 2")
    case True
    have "1 < \<bar>right - left\<bar> / (1 / 2)"
      using left.prems by simp
    then have "0 < log 2 (\<bar>right - left\<bar> / (1 / 2))"
      by (rule log_pos_two)
    then have ge: "1 \<le> \<lceil>log 2 (\<bar>right - left\<bar> / (1 / 2))\<rceil>"
      by linarith
    have "int (length (findClosestPointVertically_calls left right xValue pointFunc)) = 2"
      using True left.hyps by (simp add: calls_go_left calls_stop)
    then show ?thesis
      using ge by linarith
  next
    case False
    then have "int (length (findClosestPointVertically_calls left ?split xValue pointFunc))
        \<le> \<lceil>log 2 (\<bar>?split - left\<bar> / (1 / 2))\<rceil> + 1"
      using left.IH by simp
    also have "\<bar>?split - left\<bar> / (1 / 2) = \<bar>right - left\<bar>"
      using w by simp
    finally have "int (length (findClosestPointVertically_calls left ?split xValue pointFunc))
        \<le> \<lceil>log 2 \<bar>right - left\<bar>\<rceil> + 1" .
    moreover have "\<lceil>log 2 (\<bar>right - left\<bar> / (1 / 2))\<rceil> = \<lceil>log 2 \<bar>right - left\<bar>\<rceil> + 1"
    proof -
      have "0 < \<bar>right - left\<bar>" using left.prems by linarith
      then have "\<lceil>log 2 (2 * \<bar>right - left\<bar>)\<rceil> = \<lceil>log 2 \<bar>right - left\<bar>\<rceil> + 1"
        by (rule log_double)
      moreover have "\<bar>right - left\<bar> / (1 / 2) = 2 * \<bar>right - left\<bar>" by simp
      ultimately show ?thesis by (simp only:)
    qed
    moreover have "int (length (findClosestPointVertically_calls left right xValue pointFunc))
        = int (length (findClosestPointVertically_calls left ?split xValue pointFunc)) + 1"
      using left.hyps by (simp add: calls_go_left)
    ultimately show ?thesis
      by linarith
  qed
qed

lemma calls_hd: "hd (findClosestPointVertically_calls left right xValue pointFunc) = (left, right)"
  by (subst findClosestPointVertically_calls.simps) (simp add: Let_def)

lemma calls_halve:
  "Suc i < length (findClosestPointVertically_calls left right xValue pointFunc) \<Longrightarrow>
   snd (findClosestPointVertically_calls left right xValue pointFunc ! Suc i)
     - fst (findClosestPointVertically_calls left right xValue pointFunc ! Suc i)
   = (snd (findClosestPointVertically_calls left right xValue pointFunc ! i)
     - fst (findClosestPointVertically_calls left right xValue pointFunc ! i)) / 2"
proof (induction left right xValue pointFunc arbitrary: i rule: bisection_cases)
  case (stop left right xValue pointFunc)
  then show ?case by (simp add: calls_stop)
next
  case (right left right xValue pointFunc)
  let ?rest = "findClosestPointVertically_calls ((left + right) / 2) right xValue pointFunc"
  have calls: "findClosestPointVertically_calls left right xValue pointFunc = (left, right) # ?rest"
    using right.hyps by (simp add: calls_go_right)
  show ?case
  proof (cases i)
    case 0
    have "?rest ! 0 = ((left + right) / 2, right)"
      using calls_hd [of "(left + right) / 2" right xValue pointFunc] calls_nonempty [of "(left + right) / 2" right xValue pointFunc]
      by (simp add: hd_conv_nth)
    then show ?thesis
      using 0 by (simp add: calls field_simps)
  next
    case (Suc j)
    then show ?thesis
      using right.IH [of j] right.prems by (simp add: calls)
  qed
next
  case (left left right xValue pointFunc)
  let ?rest = "findClosestPointVertically_calls left ((left + right) / 2) xValue pointFunc"
  have calls: "findClosestPointVertically_calls left right xValue pointFunc = (left, right) # ?rest"
    using left.hyps by (simp add: calls_go_left)
  show ?case
  proof (cases i)
    case 0
    have "?rest ! 0 = (left, (left + right) / 2)"
      using calls_hd [of left "(left + right) / 2" xValue pointFunc] calls_nonempty [of left "(left + right) / 2" xValue pointFunc]
      by (simp add: hd_conv_nth)
    then show ?thesis
      using 0 by (simp add: calls field_simps)
  next
    case (Suc j)
    then show ?thesis
      using left.IH [of j] left.prems by (simp add: calls)
  qed
qed

lemma calls_length_power:
  "(1 / 2) * 2 ^ k < \<bar>right - left\<bar> \<Longrightarrow> \<bar>right - left\<bar> \<le> (1 / 2) * 2 ^ Suc k \<Longrightarrow>
   length (findClosestPointVertically_calls left right xValue pointFunc) = k + 2"
proof (induction k arbitrary: left right)
  case 0
  let ?split = "(left + right) / 2"
  have far: "\<not> \<bar>right - left\<bar> \<le> 1 / 2" using 0 by simp
  have "\<bar>right - ?split\<bar> \<le> 1 / 2" "\<bar>?split - left\<bar> \<le> 1 / 2"
    using 0 by (simp_all add: field_simps abs_if split: if_splits)
  then show ?case
    using far by (cases "x_coord (pointFunc ?split) \<le> xValue")
      (simp_all add: calls_go_right calls_go_left calls_stop)
next
  case (Suc k)
  let ?split = "(left + right) / 2"
  have far: "\<not> \<bar>right - left\<bar> \<le> 1 / 2"
  proof -
    have "(1::real) \<le> 2 ^ Suc k" by (rule one_le_power) simp
    then show ?thesis using Suc.prems(1) by simp
  qed
  have wr: "\<bar>right - ?split\<bar> = \<bar>right - left\<bar> / 2" and wl: "\<bar>?split - left\<bar> = \<bar>right - left\<bar> / 2"
    by (simp_all add: field_simps abs_if)
  have r: "length (findClosestPointVertically_calls ?split right xValue pointFunc) = k + 2"
    using Suc.prems by (intro Suc.IH) (simp_all add: wr)
  have l: "length (findClosestPointVertically_calls left ?split xValue pointFunc) = k + 2"
    using Suc.prems by (intro Suc.IH) (simp_all add: wl)
  show ?case
    using far r l by (cases "x_coord (pointFunc ?split) \<le> xValue")
      (simp_all add: calls_go_right calls_go_left)
qed

lemma calls_0_100: "length (findClosestPointVertically_calls 0 100 xValue pointFunc) = 9"
  using calls_length_power [of 7 100 0 xValue pointFunc] by simp

text \<open>
  Double arithmetic. A number \<open>m * 2 ^ e\<close> with an integer \<open>\<bar>m\<bar> < 2 ^ 53\<close> and
  \<open>- 1074 \<le> e \<le> 971\<close> is a double: rounding leaves it as it is.
\<close>

lemma round_half_even_int [simp]: "round_half_even (of_int n) = n"
  by (simp add: round_half_even_def)

lemma js_number_exact:
  fixes m e :: int
  assumes m: "\<bar>m\<bar> < 2 ^ 53" and lo: "- 1074 \<le> e" and hi: "e \<le> 971"
  shows "js_number (of_int m * 2 powr of_int e) = Inr (of_int m * 2 powr of_int e)"
proof (cases "m = 0")
  case True
  then show ?thesis by (simp add: js_number_def)
next
  case False
  define v :: real where "v = of_int m * 2 powr of_int e"
  define E where "E = max \<lfloor>log 2 \<bar>v\<bar>\<rfloor> (- 1022)"
  have abs_v: "\<bar>v\<bar> = of_int \<bar>m\<bar> * 2 powr of_int e"
    by (simp add: v_def abs_mult)
  have nonzero: "v \<noteq> 0"
    using False by (simp add: v_def)
  then have pos: "0 < \<bar>v\<bar>"
    by simp
  have "real_of_int \<bar>m\<bar> < 2 ^ 53"
    using m by (metis of_int_less_iff of_int_numeral of_int_power)
  then have "\<bar>v\<bar> < 2 ^ 53 * 2 powr of_int e"
    unfolding abs_v by (simp add: mult_strict_right_mono)
  also have "\<dots> = 2 powr (53 + of_int e)"
    by (simp add: powr_add)
  finally have below: "\<bar>v\<bar> < 2 powr (53 + of_int e)" .
  then have "log 2 \<bar>v\<bar> < 53 + of_int e"
    using pos by (simp add: log_less_iff)
  then have "\<lfloor>log 2 \<bar>v\<bar>\<rfloor> < 53 + e"
    by (simp add: floor_less_iff)
  then have E_le: "E \<le> e + 52"
    using lo by (simp add: E_def)
  define n where "n = nat (e + 52 - E)"
  have "of_int e - (of_int E - 52) = real n"
    using E_le by (simp add: n_def)
  then have "2 powr of_int e / 2 powr (of_int E - 52) = (2::real) ^ n"
    by (simp add: powr_diff [symmetric] powr_realpow del: powr_diff)
  then have "of_int m * (2 powr of_int e / 2 powr (of_int E - 52)) = of_int m * (2::real) ^ n"
    by (simp only:)
  then have quotient: "v / 2 powr (of_int E - 52) = of_int (m * 2 ^ n)"
    by (simp add: v_def)
  have again: "of_int (m * 2 ^ n) * 2 powr (of_int E - 52) = v"
    using quotient by (simp add: field_simps)
  have "(2::real) powr (53 + of_int e) \<le> 2 powr 1024"
    using hi by (intro powr_mono) simp_all
  then have finite: "\<not> 2 powr 1024 \<le> \<bar>v\<bar>"
    using below by linarith
  have "js_number v = Inr v"
    using nonzero finite
    by (simp add: js_number_def Let_def E_def [symmetric] quotient again del: of_int_mult of_int_power)
  then show ?thesis
    by (simp only: v_def)
qed

lemma js_number_dyadic:
  fixes m :: int and j :: nat
  assumes "\<bar>m\<bar> < 2 ^ 53" and "j \<le> 1074"
  shows "js_number (of_int m / 2 ^ j) = Inr (of_int m / 2 ^ j)"
proof -
  have "(2::real) powr of_int (- int j) = 1 / 2 ^ j"
    by (simp add: powr_minus powr_realpow inverse_eq_divide)
  then have "real_of_int m * 2 powr of_int (- int j) = of_int m / 2 ^ j"
    by simp
  then show ?thesis
    using js_number_exact [of m "- int j"] assms by simp
qed

lemma js_number_scaled:
  fixes m :: int and j :: nat
  assumes "\<bar>m\<bar> < 2 ^ 53" and "j \<le> 971"
  shows "js_number (of_int m * 2 ^ j) = Inr (of_int m * 2 ^ j)"
proof -
  have "(2::real) powr of_int (int j) = 2 ^ j"
    by (simp add: powr_realpow)
  then show ?thesis
    using js_number_exact [of m "int j"] assms by simp
qed

text \<open>
  The sum \<open>2 ^ 53 + (2 ^ 53 + 2)\<close> lies half way between the doubles \<open>2 ^ 54\<close> and
  \<open>2 ^ 54 + 4\<close> and rounds to the first. The call on \<open>[2 ^ 53, 2 ^ 53 + 2]\<close> thus
  computes its left end as the middle and, on a curve with x below the target there, calls
  itself with the interval it was given.
\<close>

lemma floor_log_2_54: "\<lfloor>log 2 \<bar>2 ^ 54 + 2 :: real\<bar>\<rfloor> = 54"
proof -
  have "(2::real) powr real_of_int 54 \<le> 2 ^ 54 + 2 \<and> (2 ^ 54 + 2 :: real) < 2 powr real_of_int (54 + 1)"
    by (simp add: powr_realpow [of 2 54, simplified] powr_realpow [of 2 55, simplified])
  then have "\<lfloor>log 2 (2 ^ 54 + 2 :: real)\<rfloor> = 54"
    by (subst floor_log_eq_powr_iff) simp_all
  then show ?thesis by simp
qed

lemma round_half_even_tie: "round_half_even (2 ^ 52 + 1 / 2) = 2 ^ 52"
proof -
  have "\<lfloor>2 ^ 52 + 1 / 2 :: real\<rfloor> = 2 ^ 52"
    by (simp add: floor_eq_iff)
  then show ?thesis
    by (simp add: round_half_even_def Let_def)
qed

lemma js_number_tie: "js_number (2 ^ 54 + 2) = Inr (2 ^ 54)"
proof -
  have ulp: "(2::real) powr (real_of_int (max 54 (- 1022)) - 52) = 4"
    using powr_realpow [of 2 2] by simp
  have q: "(2 ^ 54 + 2 :: real) / 4 = 2 ^ 52 + 1 / 2"
    by simp
  have fin: "\<not> (2::real) powr 1024 \<le> \<bar>real_of_int (2 ^ 52) * 4\<bar>"
  proof -
    have "\<bar>real_of_int (2 ^ 52) * 4\<bar> = 2 powr 54"
      using powr_realpow [of 2 54] by simp
    also have "\<dots> < 2 powr 1024"
      by (intro powr_less_mono) simp_all
    finally show ?thesis by simp
  qed
  have nz: "(2 ^ 54 + 2 :: real) \<noteq> 0"
    by simp
  show ?thesis
    unfolding js_number_def Let_def floor_log_2_54 ulp q round_half_even_tie
    using fin nz by simp
qed

lemma js_number_2_53: "js_number (2 ^ 53) = Inr (2 ^ 53)"
  using js_number_scaled [of 1 53] by simp

lemma js_number_2_53_2: "js_number (2 ^ 53 + 2) = Inr (2 ^ 53 + 2)"
  using js_number_scaled [of "2 ^ 52 + 1" 1] by simp

lemma js_number_2: "js_number 2 = Inr 2"
  using js_number_scaled [of 1 1] by simp

lemma body_at_2_53:
  "findClosestPointVertically_body (2 ^ 53) (2 ^ 53 + 2) (2 ^ 53 + 2) ascending_curve
   = Inr (Recurse (2 ^ 53) (2 ^ 53 + 2))"
proof -
  have s: "(2 ^ 53 + (2 ^ 53 + 2) :: real) = 2 ^ 54 + 2"
    by simp
  have h: "(2 ^ 54 / 2 :: real) = 2 ^ 53"
    by simp
  have d: "(2 ^ 53 + 2 - 2 ^ 53 :: real) = 2"
    by simp
  show ?thesis
    unfolding findClosestPointVertically_body_def s js_number_tie bindE_def sum.case h js_number_2_53
      d js_number_2
    by (simp add: ascending_curve_def)
qed

lemma never_returns:
  "findClosestPointVertically_js fuel (2 ^ 53) (2 ^ 53 + 2) (2 ^ 53 + 2) ascending_curve = None"
proof (induction fuel)
  case 0
  show ?case by simp
next
  case (Suc fuel)
  show ?case
    unfolding findClosestPointVertically_js.simps body_at_2_53 using Suc by simp
qed

text \<open>
  Where the arithmetic of every call is exact, the recursion in double arithmetic makes
  the calls of the recursion in exact arithmetic and returns its point: with fuel for
  every call, and not with less.
\<close>

lemma body_exact:
  assumes "exact_arithmetic left right"
  shows "findClosestPointVertically_body left right xValue pointFunc
     = Inr (if \<bar>right - left\<bar> \<le> 1 / 2 then Return (pointFunc ((left + right) / 2))
            else if x_coord (pointFunc ((left + right) / 2)) \<le> xValue
              then Recurse ((left + right) / 2) right
              else Recurse left ((left + right) / 2))"
  using assms by (simp add: findClosestPointVertically_body_def exact_arithmetic_def bindE_def Let_def)

lemma js_agrees:
  assumes "list_all (\<lambda>(l, r). exact_arithmetic l r)
             (findClosestPointVertically_calls left right xValue pointFunc)"
    and "length (findClosestPointVertically_calls left right xValue pointFunc) \<le> fuel"
  shows "findClosestPointVertically_js fuel left right xValue pointFunc
       = Some (Inr (findClosestPointVertically left right xValue pointFunc,
                    findClosestPointVertically_calls left right xValue pointFunc))"
  using assms
proof (induction left right xValue pointFunc arbitrary: fuel rule: bisection_cases)
  case (stop left right xValue pointFunc)
  from stop(3) obtain rest where fuel: "fuel = Suc rest"
    by (cases fuel) (simp_all add: calls_stop [where left = left and right = right and xValue = xValue and pointFunc = pointFunc, OF stop(1)])
  have "exact_arithmetic left right"
    using stop(2) by (simp add: calls_stop [where left = left and right = right and xValue = xValue and pointFunc = pointFunc, OF stop(1)])
  then show ?case
    using stop(1) by (simp add: fuel body_exact calls_stop fcpv_stop)
next
  case (right left right xValue pointFunc)
  note calls = calls_go_right [where left = left and right = right and xValue = xValue and pointFunc = pointFunc, OF right(1,2)]
  from right(5) obtain rest where fuel: "fuel = Suc rest"
    by (cases fuel) (simp_all add: calls)
  have here: "exact_arithmetic left right"
    and there: "list_all (\<lambda>(l, r). exact_arithmetic l r)
             (findClosestPointVertically_calls ((left + right) / 2) right xValue pointFunc)"
    using right(4) by (simp_all add: calls)
  have "length (findClosestPointVertically_calls ((left + right) / 2) right xValue pointFunc) \<le> rest"
    using right(5) by (simp add: calls fuel)
  with there have "findClosestPointVertically_js rest ((left + right) / 2) right xValue pointFunc
       = Some (Inr (findClosestPointVertically ((left + right) / 2) right xValue pointFunc,
                    findClosestPointVertically_calls ((left + right) / 2) right xValue pointFunc))"
    by (rule right(3))
  then show ?case
    using right(1,2) by (simp add: fuel body_exact [OF here] calls fcpv_go_right)
next
  case (left left right xValue pointFunc)
  note calls = calls_go_left [where left = left and right = right and xValue = xValue and pointFunc = pointFunc, OF left(1,2)]
  from left(5) obtain rest where fuel: "fuel = Suc rest"
    by (cases fuel) (simp_all add: calls)
  have here: "exact_arithmetic left right"
    and there: "list_all (\<lambda>(l, r). exact_arithmetic l r)
             (findClosestPointVertically_calls left ((left + right) / 2) xValue pointFunc)"
    using left(4) by (simp_all add: calls)
  have "length (findClosestPointVertically_calls left ((left + right) / 2) xValue pointFunc) \<le> rest"
    using left(5) by (simp add: calls fuel)
  with there have "findClosestPointVertically_js rest left ((left + right) / 2) xValue pointFunc
       = Some (Inr (findClosestPointVertically left ((left + right) / 2) xValue pointFunc,
                    findClosestPointVertically_calls left ((left + right) / 2) xValue pointFunc))"
    by (rule left(3))
  then show ?case
    using left(1,2) by (simp add: fuel body_exact [OF here] calls fcpv_go_left)
qed

lemma js_out_of_fuel:
  assumes "list_all (\<lambda>(l, r). exact_arithmetic l r)
             (findClosestPointVertically_calls left right xValue pointFunc)"
    and "fuel < length (findClosestPointVertically_calls left right xValue pointFunc)"
  shows "findClosestPointVertically_js fuel left right xValue pointFunc = None"
  using assms
proof (induction left right xValue pointFunc arbitrary: fuel rule: bisection_cases)
  case (stop left right xValue pointFunc)
  then show ?case
    by (simp add: calls_stop)
next
  case (right left right xValue pointFunc)
  note calls = calls_go_right [where left = left and right = right and xValue = xValue and pointFunc = pointFunc, OF right(1,2)]
  have here: "exact_arithmetic left right"
    and there: "list_all (\<lambda>(l, r). exact_arithmetic l r)
             (findClosestPointVertically_calls ((left + right) / 2) right xValue pointFunc)"
    using right(4) by (simp_all add: calls)
  show ?case
  proof (cases fuel)
    case 0
    then show ?thesis by simp
  next
    case (Suc rest)
    then have "rest < length (findClosestPointVertically_calls ((left + right) / 2) right xValue pointFunc)"
      using right(5) by (simp add: calls)
    with there have "findClosestPointVertically_js rest ((left + right) / 2) right xValue pointFunc = None"
      by (rule right(3))
    then show ?thesis
      using right(1,2) by (simp add: Suc body_exact [OF here])
  qed
next
  case (left left right xValue pointFunc)
  note calls = calls_go_left [where left = left and right = right and xValue = xValue and pointFunc = pointFunc, OF left(1,2)]
  have here: "exact_arithmetic left right"
    and there: "list_all (\<lambda>(l, r). exact_arithmetic l r)
             (findClosestPointVertically_calls left ((left + right) / 2) xValue pointFunc)"
    using left(4) by (simp_all add: calls)
  show ?case
  proof (cases fuel)
    case 0
    then show ?thesis by simp
  next
    case (Suc rest)
    then have "rest < length (findClosestPointVertically_calls left ((left + right) / 2) xValue pointFunc)"
      using left(5) by (simp add: calls)
    with there have "findClosestPointVertically_js rest left ((left + right) / 2) xValue pointFunc = None"
      by (rule left(3))
    then show ?thesis
      using left(1,2) by (simp add: Suc body_exact [OF here])
  qed
qed

text \<open>
  Intervals with ends \<open>a / 2 ^ k\<close> and \<open>b / 2 ^ k\<close>, for integers of magnitude up to
  \<open>2 ^ 24\<close>: a call at depth \<open>d\<close> has ends that are multiples of \<open>2 ^ - (k + d)\<close>, and the
  recursion goes beyond depth \<open>d\<close> only while \<open>k + d < 26\<close>, so the arithmetic of every call
  is exact.
\<close>

lemma dyadic_exact:
  fixes p q :: int and j :: nat
  assumes p: "\<bar>p\<bar> \<le> 2 ^ 50" and q: "\<bar>q\<bar> \<le> 2 ^ 50" and j: "j \<le> 1073"
  shows "exact_arithmetic (of_int p / 2 ^ j) (of_int q / 2 ^ j)"
proof -
  have s: "real_of_int p / 2 ^ j + of_int q / 2 ^ j = of_int (p + q) / 2 ^ j"
    by (simp add: add_divide_distrib)
  have h: "real_of_int (p + q) / 2 ^ j / 2 = of_int (p + q) / 2 ^ Suc j"
    by simp
  have d: "real_of_int q / 2 ^ j - of_int p / 2 ^ j = of_int (q - p) / 2 ^ j"
    by (simp add: diff_divide_distrib)
  have "\<bar>p + q\<bar> < 2 ^ 53" "\<bar>q - p\<bar> < 2 ^ 53"
    using p q by simp_all
  then show ?thesis
    unfolding exact_arithmetic_def s h d
    using j by (intro conjI js_number_dyadic) simp_all
qed

lemma dyadic_calls_exact:
  fixes p q :: int and k d :: nat
  assumes "left = of_int p / 2 ^ (k + d)" and "right = of_int q / 2 ^ (k + d)"
    and "\<bar>p\<bar> \<le> 2 ^ (24 + d)" and "\<bar>q\<bar> \<le> 2 ^ (24 + d)"
    and "p \<le> q" and "q - p \<le> 2 ^ 25" and "d \<le> 26" and "k \<le> 1000"
  shows "list_all (\<lambda>(l, r). exact_arithmetic l r)
           (findClosestPointVertically_calls left right xValue pointFunc)"
  using assms
proof (induction left right xValue pointFunc arbitrary: p q d rule: bisection_cases)
  case (stop left right xValue pointFunc)
  have "(2::int) ^ (24 + d) \<le> 2 ^ 50"
    using stop.prems(7) by (intro power_increasing) simp_all
  then have "\<bar>p\<bar> \<le> 2 ^ 50" "\<bar>q\<bar> \<le> 2 ^ 50"
    using stop.prems(3,4) by linarith+
  moreover have "k + d \<le> 1073"
    using stop.prems(7,8) by simp
  ultimately have "exact_arithmetic (of_int p / 2 ^ (k + d)) (of_int q / 2 ^ (k + d))"
    by (rule dyadic_exact)
  then show ?case
    using stop.hyps by (simp add: calls_stop stop.prems(1,2))
next
  case (right left right xValue pointFunc)
  note far = right.hyps(1)
  have width: "right - left = of_int (q - p) / 2 ^ (k + d)"
    by (simp add: right.prems(1,2) diff_divide_distrib)
  have "(1::real) / 2 < of_int (q - p) / 2 ^ (k + d)"
    using far right.prems(5) unfolding width by simp
  then have "(2::real) ^ (k + d) < 2 * of_int (q - p)"
    by (simp add: field_simps)
  also have "\<dots> \<le> 2 * of_int (2 ^ 25)"
    using right.prems(6) by (simp only: mult_le_cancel_left_pos of_int_le_iff zero_less_numeral)
  finally have "(2::real) ^ (k + d) < 2 ^ 26"
    by simp
  then have depth: "k + d < 26"
    by (rule power_less_imp_less_exp [rotated]) simp
  have "(2::int) ^ (24 + d) \<le> 2 ^ 50"
    using right.prems(7) by (intro power_increasing) simp_all
  then have "\<bar>p\<bar> \<le> 2 ^ 50" "\<bar>q\<bar> \<le> 2 ^ 50"
    using right.prems(3,4) by linarith+
  moreover have "k + d \<le> 1073"
    using depth by simp
  ultimately have "exact_arithmetic (of_int p / 2 ^ (k + d)) (of_int q / 2 ^ (k + d))"
    by (rule dyadic_exact)
  then have here: "exact_arithmetic left right"
    by (simp only: right.prems(1,2))
  have "list_all (\<lambda>(l, r). exact_arithmetic l r)
           (findClosestPointVertically_calls ((left + right) / 2) right xValue pointFunc)"
  proof (rule right.IH [of "p + q" "Suc d" "2 * q"])
    show "(left + right) / 2 = real_of_int (p + q) / 2 ^ (k + Suc d)"
      by (simp add: right.prems(1,2) add_divide_distrib)
    show "right = real_of_int (2 * q) / 2 ^ (k + Suc d)"
      by (simp add: right.prems(2))
    have "(2::int) ^ (24 + Suc d) = 2 * 2 ^ (24 + d)"
      by (simp add: power_add)
    then show "\<bar>p + q\<bar> \<le> 2 ^ (24 + Suc d)" "\<bar>2 * q\<bar> \<le> 2 ^ (24 + Suc d)"
      using right.prems(3,4) by linarith+
    show "p + q \<le> 2 * q" "2 * q - (p + q) \<le> 2 ^ 25"
      using right.prems(5,6) by simp_all
    show "Suc d \<le> 26"
      using depth by simp
    show "k \<le> 1000"
      by (rule right.prems(8))
  qed
  with here show ?case
    by (simp add: calls_go_right [where left = left and right = right and xValue = xValue and pointFunc = pointFunc, OF right.hyps(1,2)])
next
  case (left left right xValue pointFunc)
  note far = left.hyps(1)
  have width: "right - left = of_int (q - p) / 2 ^ (k + d)"
    by (simp add: left.prems(1,2) diff_divide_distrib)
  have "(1::real) / 2 < of_int (q - p) / 2 ^ (k + d)"
    using far left.prems(5) unfolding width by simp
  then have "(2::real) ^ (k + d) < 2 * of_int (q - p)"
    by (simp add: field_simps)
  also have "\<dots> \<le> 2 * of_int (2 ^ 25)"
    using left.prems(6) by (simp only: mult_le_cancel_left_pos of_int_le_iff zero_less_numeral)
  finally have "(2::real) ^ (k + d) < 2 ^ 26"
    by simp
  then have depth: "k + d < 26"
    by (rule power_less_imp_less_exp [rotated]) simp
  have "(2::int) ^ (24 + d) \<le> 2 ^ 50"
    using left.prems(7) by (intro power_increasing) simp_all
  then have "\<bar>p\<bar> \<le> 2 ^ 50" "\<bar>q\<bar> \<le> 2 ^ 50"
    using left.prems(3,4) by linarith+
  moreover have "k + d \<le> 1073"
    using depth by simp
  ultimately have "exact_arithmetic (of_int p / 2 ^ (k + d)) (of_int q / 2 ^ (k + d))"
    by (rule dyadic_exact)
  then have here: "exact_arithmetic left right"
    by (simp only: left.prems(1,2))
  have "list_all (\<lambda>(l, r). exact_arithmetic l r)
           (findClosestPointVertically_calls left ((left + right) / 2) xValue pointFunc)"
  proof (rule left.IH [of "2 * p" "Suc d" "p + q"])
    show "(left + right) / 2 = real_of_int (p + q) / 2 ^ (k + Suc d)"
      by (simp add: left.prems(1,2) add_divide_distrib)
    show "left = real_of_int (2 * p) / 2 ^ (k + Suc d)"
      by (simp add: left.prems(1))
    have "(2::int) ^ (24 + Suc d) = 2 * 2 ^ (24 + d)"
      by (simp add: power_add)
    then show "\<bar>p + q\<bar> \<le> 2 ^ (24 + Suc d)" "\<bar>2 * p\<bar> \<le> 2 ^ (24 + Suc d)"
      using left.prems(3,4) by linarith+
    show "2 * p \<le> p + q" "p + q - 2 * p \<le> 2 ^ 25"
      using left.prems(5,6) by simp_all
    show "Suc d \<le> 26"
      using depth by simp
    show "k \<le> 1000"
      by (rule left.prems(8))
  qed
  with here show ?case
    by (simp add: calls_go_left [where left = left and right = right and xValue = xValue and pointFunc = pointFunc, OF left.hyps(1,2)])
qed

text \<open>The number of calls in exact arithmetic, for an interval wider than \<open>1/2\<close>.\<close>

lemma calls_count:
  assumes far: "1 / 2 < \<bar>right - left\<bar>"
  shows "int (length (findClosestPointVertically_calls left right xValue pointFunc))
         = \<lceil>log 2 (\<bar>right - left\<bar> / (1 / 2))\<rceil> + 1"
proof -
  define w where "w = \<bar>right - left\<bar>"
  define c where "c = \<lceil>log 2 (2 * w)\<rceil>"
  define n where "n = nat (c - 1)"
  have w: "1 < 2 * w"
    using far by (simp add: w_def)
  then have "0 < log 2 (2 * w)"
    by (rule log_pos_two)
  then have "1 \<le> c"
    by (simp add: c_def less_ceiling_iff)
  then have c: "c = int n + 1"
    by (simp add: n_def)
  have "real_of_int c - 1 < log 2 (2 * w)" and "log 2 (2 * w) \<le> real_of_int c"
    unfolding c_def by linarith+
  then have "real n < log 2 (2 * w)" and "log 2 (2 * w) \<le> real (Suc n)"
    by (simp_all add: c)
  then have "2 powr real n < 2 * w" and "2 * w \<le> 2 powr real (Suc n)"
    using w by (simp_all add: less_log_iff log_le_iff)
  then have "2 ^ n < 2 * w" and "2 * w \<le> 2 ^ Suc n"
    by (simp_all only: powr_realpow [of 2, simplified])
  then have "(1 / 2) * 2 ^ n < \<bar>right - left\<bar>" and "\<bar>right - left\<bar> \<le> (1 / 2) * 2 ^ Suc n"
    by (simp_all add: w_def)
  then have "length (findClosestPointVertically_calls left right xValue pointFunc) = n + 2"
    by (rule calls_length_power)
  then have "int (length (findClosestPointVertically_calls left right xValue pointFunc)) = c + 1"
    by (simp add: c)
  moreover have "\<bar>right - left\<bar> / (1 / 2) = 2 * w"
    by (simp add: w_def)
  ultimately show ?thesis
    by (simp only: c_def)
qed

lemma ceiling_log_200: "\<lceil>log 2 ((100 - 0) / (1 / 2))\<rceil> = 8"
proof -
  have "(2::real) powr 7 < 200" and "(200::real) \<le> 2 powr 8"
    using powr_realpow [of 2 7] powr_realpow [of 2 8] by simp_all
  then have "7 < log 2 200" and "log 2 200 \<le> 8"
    by (simp_all add: less_log_iff log_le_iff)
  then have "\<lceil>log 2 200\<rceil> = 8"
    by (simp add: ceiling_eq_iff)
  then show ?thesis
    by simp
qed

text \<open>
  Claim C3, as stated, at a curve whose x strictly falls along its length,
  \<open>x = 100 - position\<close>, and the target \<open>10\<close>, which lies between the x-values of the two
  ends: the curve meets the vertical line at position \<open>90\<close>, and the bisection returns the
  point at position \<open>25/128\<close>. No position within \<open>0.5\<close> of \<open>90\<close> gives that point.
\<close>

theorem bisection_descending_curve:
  "strictly_decreasing_x 0 100 descending_curve
   \<and> x_coord (descending_curve 100) \<le> 10 \<and> 10 \<le> x_coord (descending_curve 0)
   \<and> x_coord (descending_curve 90) = 10
   \<and> findClosestPointVertically 0 100 10 descending_curve = descending_curve (25 / 128)
   \<and> \<not> (\<exists>t. findClosestPointVertically 0 100 10 descending_curve = descending_curve t
            \<and> \<bar>t - 90\<bar> \<le> 1 / 2)"
proof -
  have r: "findClosestPointVertically 0 100 10 descending_curve = descending_curve (25 / 128)"
    by (simp add: fcpv_stop fcpv_go_right fcpv_go_left descending_curve_def)
  have "\<not> (\<exists>t. descending_curve (25 / 128) = descending_curve t \<and> \<bar>t - 90\<bar> \<le> 1 / 2)"
    by (auto simp: descending_curve_def)
  then show ?thesis
    unfolding r by (simp add: strictly_decreasing_x_def descending_curve_def)
qed

text \<open>
  Claim C3, amended: for every mapping from arc length to points whose x strictly
  increases over \<open>[0, 100]\<close> and every target that the curve meets at a position \<open>s\<close> of
  \<open>[0, 100]\<close>, \<^verbatim>\<open>findClosestPointVertically(0, 100, target, pointFunc)\<close> returns the point
  at a position within \<open>0.5\<close> of \<open>s\<close>.
\<close>

theorem bisection_converges_when_increasing:
  assumes "strictly_increasing_x 0 100 pointFunc"
    and "0 \<le> s" and "s \<le> 100" and "x_coord (pointFunc s) = xValue"
  shows "\<exists>t. findClosestPointVertically 0 100 xValue pointFunc = pointFunc t
             \<and> 0 \<le> t \<and> t \<le> 100 \<and> \<bar>t - s\<bar> \<le> 1 / 2"
proof -
  have "\<forall>a b. 0 \<le> a \<and> a < b \<and> b \<le> 100 \<longrightarrow> x_coord (pointFunc a) < x_coord (pointFunc b)"
    using assms(1) by (simp add: strictly_increasing_x_def)
  then obtain t where "findClosestPointVertically 0 100 xValue pointFunc = pointFunc t"
      "0 \<le> t" "t \<le> 100" "\<bar>t - s\<bar> \<le> 1 / 4"
    using bisection_encloses [of 0 100 pointFunc s xValue] assms(2-4) by blast
  then show ?thesis
    by (intro exI [of _ t]) simp
qed

text \<open>The amended claim C3 at the curve \<open>x = position\<close> and the target \<open>30\<close>.\<close>

theorem bisection_converges_when_increasing_witness:
  "strictly_increasing_x 0 100 ascending_curve
   \<and> x_coord (ascending_curve 30) = 30
   \<and> (\<exists>t. findClosestPointVertically 0 100 30 ascending_curve = ascending_curve t
          \<and> 0 \<le> t \<and> t \<le> 100 \<and> \<bar>t - 30\<bar> \<le> 1 / 2)"
proof -
  have inc: "strictly_increasing_x 0 100 ascending_curve"
    by (simp add: strictly_increasing_x_def ascending_curve_def)
  have at: "x_coord (ascending_curve 30) = 30"
    by (simp add: ascending_curve_def)
  have "\<exists>t. findClosestPointVertically 0 100 30 ascending_curve = ascending_curve t
          \<and> 0 \<le> t \<and> t \<le> 100 \<and> \<bar>t - 30\<bar> \<le> 1 / 2"
    by (rule bisection_converges_when_increasing [OF inc _ _ at]) simp_all
  then show ?thesis
    using inc at by simp
qed

text \<open>
  Claim C4, as stated, at two intervals with \<open>left \<le> right\<close>, in double arithmetic.
  On \<open>[2 ^ 53, 2 ^ 53 + 2]\<close>, whose ends are doubles, with the curve \<open>x = position\<close> and
  the target \<open>2 ^ 53 + 2\<close>, no amount of fuel suffices: the recursion does not terminate.
  On \<open>[0, 1/8]\<close> there is one call, which evaluates \<^verbatim>\<open>pointFunc\<close> once, and
  \<open>ceil(log2((1/8 - 0) / 0.5)) + 1\<close> is \<open>-1\<close>.
\<close>

theorem bisection_double_rounding:
  "js_number (2 ^ 53) = Inr (2 ^ 53) \<and> js_number (2 ^ 53 + 2) = Inr (2 ^ 53 + 2)
   \<and> (\<forall>fuel. findClosestPointVertically_js fuel (2 ^ 53) (2 ^ 53 + 2) (2 ^ 53 + 2) ascending_curve
          = None)
   \<and> findClosestPointVertically_js 1 0 (1 / 8) 10 descending_curve
        = Some (Inr (descending_curve (1 / 16), [(0, 1 / 8)]))
   \<and> \<lceil>log 2 ((1 / 8 - 0) / (1 / 2))\<rceil> + 1 = - 1"
proof (intro conjI allI)
  show "js_number (2 ^ 53) = Inr (2 ^ 53)"
    by (rule js_number_2_53)
  show "js_number (2 ^ 53 + 2) = Inr (2 ^ 53 + 2)"
    by (rule js_number_2_53_2)
  show "findClosestPointVertically_js fuel (2 ^ 53) (2 ^ 53 + 2) (2 ^ 53 + 2) ascending_curve = None"
    for fuel
    by (rule never_returns)
  have "exact_arithmetic (of_int 0 / 2 ^ 3) (of_int 1 / 2 ^ 3)"
    by (rule dyadic_exact) simp_all
  then have "exact_arithmetic 0 (1 / 8)"
    by simp
  then show "findClosestPointVertically_js 1 0 (1 / 8) 10 descending_curve
        = Some (Inr (descending_curve (1 / 16), [(0, 1 / 8)]))"
    using js_agrees [of 0 "1 / 8" 10 descending_curve 1]
    by (simp add: calls_stop fcpv_stop)
  have "((1 / 8 - 0) / (1 / 2) :: real) = 1 / 4"
    by simp
  then show "\<lceil>log 2 ((1 / 8 - 0) / (1 / 2))\<rceil> + 1 = - 1"
    by (simp only: log_quarter) simp
qed

text \<open>
  Claim C4, amended: for every interval with ends \<open>left = a / 2 ^ k\<close> and
  \<open>right = b / 2 ^ k\<close>, where \<open>a \<le> b\<close> are integers of magnitude at most \<open>2 ^ 24\<close> and
  \<open>k \<le> 1000\<close> (every interval with integer ends up to 16777216, and every interval from 0
  to a single-precision length below that), every target and every \<^verbatim>\<open>pointFunc\<close>,
  \<^verbatim>\<open>findClosestPointVertically\<close> in double arithmetic terminates: it returns with fuel for
  its calls, and not with less. Each call evaluates \<^verbatim>\<open>pointFunc\<close> once. The first call
  has the interval given; there is one call when \<open>right - left \<le> 0.5\<close>, and there are
  \<open>ceil(log2((right - left) / 0.5)) + 1\<close> calls when \<open>right - left > 0.5\<close>; each call after
  the first has an interval half as wide as the call before; the result is
  \<^verbatim>\<open>pointFunc\<close> at the middle of the last call's interval.
\<close>

theorem bisection_call_count_dyadic:
  fixes a b :: int and k :: nat
  assumes "a \<le> b" and "\<bar>a\<bar> \<le> 2 ^ 24" and "\<bar>b\<bar> \<le> 2 ^ 24" and "k \<le> 1000"
  shows "\<exists>curvePoint calls.
      (\<forall>fuel. findClosestPointVertically_js fuel (of_int a / 2 ^ k) (of_int b / 2 ^ k) xValue pointFunc
          = (if fuel < length calls then None else Some (Inr (curvePoint, calls))))
    \<and> hd calls = (of_int a / 2 ^ k, of_int b / 2 ^ k)
    \<and> (of_int b / 2 ^ k - of_int a / 2 ^ k \<le> (1 / 2 :: real) \<longrightarrow> length calls = 1)
    \<and> ((1 / 2 :: real) < of_int b / 2 ^ k - of_int a / 2 ^ k \<longrightarrow>
          int (length calls) = \<lceil>log 2 ((of_int b / 2 ^ k - of_int a / 2 ^ k) / (1 / 2))\<rceil> + 1)
    \<and> (\<forall>i. Suc i < length calls \<longrightarrow>
          snd (calls ! Suc i) - fst (calls ! Suc i) = (snd (calls ! i) - fst (calls ! i)) / 2)
    \<and> curvePoint = pointFunc ((fst (last calls) + snd (last calls)) / 2)"
proof -
  define left :: real where "left = of_int a / 2 ^ k"
  define right :: real where "right = of_int b / 2 ^ k"
  define calls where "calls = findClosestPointVertically_calls left right xValue pointFunc"
  define curvePoint where "curvePoint = findClosestPointVertically left right xValue pointFunc"
  have order: "left \<le> right"
    using assms(1) by (simp add: left_def right_def divide_right_mono)
  have "b - a \<le> 2 ^ 25"
    using assms(2,3) by simp
  with assms have exact: "list_all (\<lambda>(l, r). exact_arithmetic l r) calls"
    unfolding calls_def
    by (intro dyadic_calls_exact [where p = a and q = b and k = k and d = 0])
       (simp_all add: left_def right_def)
  have run: "findClosestPointVertically_js fuel left right xValue pointFunc
          = (if fuel < length calls then None else Some (Inr (curvePoint, calls)))" for fuel
  proof (cases "fuel < length calls")
    case True
    then show ?thesis
      using js_out_of_fuel [of left right xValue pointFunc fuel] exact
      by (simp add: calls_def)
  next
    case False
    then show ?thesis
      using js_agrees [of left right xValue pointFunc fuel] exact
      by (simp add: calls_def curvePoint_def)
  qed
  have first: "hd calls = (left, right)"
    unfolding calls_def by (rule calls_hd)
  have near: "length calls = 1" if "right - left \<le> 1 / 2"
  proof -
    have "\<bar>right - left\<bar> \<le> 1 / 2"
      using that order by simp
    then show ?thesis
      by (simp add: calls_def calls_stop)
  qed
  have count: "int (length calls) = \<lceil>log 2 ((right - left) / (1 / 2))\<rceil> + 1"
    if "1 / 2 < right - left"
  proof -
    have eq: "\<bar>right - left\<bar> = right - left"
      using order by simp
    have "1 / 2 < \<bar>right - left\<bar>"
      using that by simp
    then have "int (length (findClosestPointVertically_calls left right xValue pointFunc))
         = \<lceil>log 2 (\<bar>right - left\<bar> / (1 / 2))\<rceil> + 1"
      by (rule calls_count)
    then show ?thesis
      by (simp only: eq calls_def)
  qed
  have halve: "snd (calls ! Suc i) - fst (calls ! Suc i) = (snd (calls ! i) - fst (calls ! i)) / 2"
    if "Suc i < length calls" for i
    using that unfolding calls_def by (rule calls_halve)
  have last: "curvePoint = pointFunc ((fst (last calls) + snd (last calls)) / 2)"
    unfolding calls_def curvePoint_def by (rule result_at_last_call)
  show ?thesis
    using run first near count halve last
    unfolding left_def right_def
    by (intro exI [of _ curvePoint] exI [of _ calls] conjI allI impI)
qed

text \<open>
  The amended claim C4 at the interval \<open>[0, 100]\<close>: 9 calls, that is 8 recursive steps;
  fuel for 8 calls does not suffice.
\<close>

theorem bisection_call_count_dyadic_witness:
  "(0::int) \<le> 100 \<and> \<bar>0::int\<bar> \<le> 2 ^ 24 \<and> \<bar>100::int\<bar> \<le> 2 ^ 24 \<and> (0::nat) \<le> 1000
   \<and> (1 / 2 :: real) < 100 - 0
   \<and> \<lceil>log 2 ((100 - 0) / (1 / 2))\<rceil> + 1 = 9
   \<and> (\<exists>curvePoint calls.
         findClosestPointVertically_js 9 0 100 10 descending_curve = Some (Inr (curvePoint, calls))
         \<and> findClosestPointVertically_js 8 0 100 10 descending_curve = None
         \<and> length calls = 9
         \<and> hd calls = (0, 100)
         \<and> snd (calls ! 8) - fst (calls ! 8) = (snd (calls ! 7) - fst (calls ! 7)) / 2
         \<and> curvePoint = descending_curve ((fst (last calls) + snd (last calls)) / 2))"
proof -
  have a: "(0::int) \<le> 100" and b: "\<bar>0::int\<bar> \<le> 2 ^ 24" and c: "\<bar>100::int\<bar> \<le> 2 ^ 24"
    and d: "(0::nat) \<le> 1000" and far: "(1 / 2 :: real) < 100 - 0"
    by simp_all
  have bound: "\<lceil>log 2 ((100 - 0) / (1 / 2))\<rceil> + 1 = 9"
    unfolding ceiling_log_200 by simp
  from bisection_call_count_dyadic [OF a b c d, of 10 descending_curve]
  obtain curvePoint calls where
    run: "\<And>fuel. findClosestPointVertically_js fuel 0 100 10 descending_curve
          = (if fuel < length calls then None else Some (Inr (curvePoint, calls)))"
    and first: "hd calls = (0, 100)"
    and count: "(1 / 2 :: real) < 100 - 0 \<longrightarrow>
          int (length calls) = \<lceil>log 2 ((100 - 0) / (1 / 2))\<rceil> + 1"
    and halve: "\<And>i. Suc i < length calls \<longrightarrow>
          snd (calls ! Suc i) - fst (calls ! Suc i) = (snd (calls ! i) - fst (calls ! i)) / 2"
    and last: "curvePoint = descending_curve ((fst (last calls) + snd (last calls)) / 2)"
    by auto
  from count far have "int (length calls) = \<lceil>log 2 ((100 - 0) / (1 / 2))\<rceil> + 1"
    by (rule mp)
  then have "int (length calls) = 9"
    by (simp only: bound)
  then have len: "length calls = 9"
    by simp
  have "findClosestPointVertically_js 9 0 100 10 descending_curve = Some (Inr (curvePoint, calls))"
    and "findClosestPointVertically_js 8 0 100 10 descending_curve = None"
    by (simp_all add: run len)
  moreover have "snd (calls ! 8) - fst (calls ! 8) = (snd (calls ! 7) - fst (calls ! 7)) / 2"
    using halve [of 7] by (simp add: len)
  ultimately have "\<exists>curvePoint calls.
         findClosestPointVertically_js 9 0 100 10 descending_curve = Some (Inr (curvePoint, calls))
         \<and> findClosestPointVertically_js 8 0 100 10 descending_curve = None
         \<and> length calls = 9
         \<and> hd calls = (0, 100)
         \<and> snd (calls ! 8) - fst (calls ! 8) = (snd (calls ! 7) - fst (calls ! 7)) / 2
         \<and> curvePoint = descending_curve ((fst (last calls) + snd (last calls)) / 2)"
    using len first last by (intro exI [of _ curvePoint] exI [of _ calls] conjI)
  with a b c d far bound show ?thesis
    by (intro conjI)
qed

section \<open>Stack builder\<close>

lemma bindE_Inr [simp]: "bindE (Inr v) f = f v"
  by (simp add: bindE_def)

lemma bindE_Inl [simp]: "bindE (Inl e) f = Inl e"
  by (simp add: bindE_def)

lemma sequenceE_enumerate:
  "(\<And>i. i < length xs \<Longrightarrow> f (n + i) (xs ! i) = Inr (g (n + i) (xs ! i))) \<Longrightarrow>
   sequenceE (map (\<lambda>(i, v). f i v) (enumerate n xs)) = Inr (map (\<lambda>(i, v). g i v) (enumerate n xs))"
proof (induction xs arbitrary: n)
  case Nil
  then show ?case by simp
next
  case (Cons a xs)
  have "f n a = Inr (g n a)"
    using Cons.prems [of 0] by simp
  moreover have "sequenceE (map (\<lambda>(i, v). f i v) (enumerate (Suc n) xs))
      = Inr (map (\<lambda>(i, v). g i v) (enumerate (Suc n) xs))"
  proof (rule Cons.IH)
    fix i
    assume "i < length xs"
    then show "f (Suc n + i) (xs ! i) = Inr (g (Suc n + i) (xs ! i))"
      using Cons.prems [of "Suc i"] by simp
  qed
  ultimately show ?case by simp
qed

lemma mapIndexedE_Inr:
  assumes "\<And>i. i < length xs \<Longrightarrow> f i (xs ! i) = Inr (g i (xs ! i))"
  shows "mapIndexedE f xs = Inr (map (\<lambda>(i, v). g i v) (enumerate 0 xs))"
  unfolding mapIndexedE_def using assms by (intro sequenceE_enumerate) simp

lemma d3_min_Min: "d3_min vs = (if vs = [] then None else Some (Min (set vs)))"
  by (induction vs) (auto simp: min_def Min_insert2 split: option.splits)

lemma d3_max_Max: "d3_max vs = (if vs = [] then None else Some (Max (set vs)))"
  by (induction vs) (auto simp: max_def Max_insert2 split: option.splits)

lemma stackOffsetNone_from_length [simp]:
  "length (stackOffsetNone_from s0 rest) = length rest"
  by (induction rest arbitrary: s0) (simp_all add: Let_def)

lemma stackOffsetNone_from_nth:
  assumes "\<forall>s\<in>set rest. length s = m" and "length s0 = m" and "k < length rest" and "j < m"
  shows "length (stackOffsetNone_from s0 rest ! k) = m
       \<and> stackOffsetNone_from s0 rest ! k ! j
          = (snd (s0 ! j) + (\<Sum>i<k. snd (rest ! i ! j)), snd (s0 ! j) + (\<Sum>i<Suc k. snd (rest ! i ! j)))"
  using assms
proof (induction rest arbitrary: s0 k)
  case Nil
  then show ?case by simp
next
  case (Cons s1 rest)
  let ?s1' = "map (\<lambda>(below, p). (snd below, snd p + snd below)) (zip s0 s1)"
  have len: "length ?s1' = m"
    using Cons.prems by simp
  have at: "?s1' ! j = (snd (s0 ! j), snd (s1 ! j) + snd (s0 ! j))"
    using Cons.prems by simp
  show ?case
  proof (cases k)
    case 0
    then show ?thesis
      using len at by (simp add: Let_def)
  next
    case (Suc k')
    have "length (stackOffsetNone_from ?s1' rest ! k') = m
       \<and> stackOffsetNone_from ?s1' rest ! k' ! j
          = (snd (?s1' ! j) + (\<Sum>i<k'. snd (rest ! i ! j)), snd (?s1' ! j) + (\<Sum>i<Suc k'. snd (rest ! i ! j)))"
      using Cons.prems Suc len by (intro Cons.IH) simp_all
    moreover have "(\<Sum>i<Suc k'. snd ((s1 # rest) ! i ! j)) = snd (s1 ! j) + (\<Sum>i<k'. snd (rest ! i ! j))"
      by (simp add: sum.lessThan_Suc_shift del: sum.lessThan_Suc)
    moreover have "(\<Sum>i<Suc (Suc k'). snd ((s1 # rest) ! i ! j)) = snd (s1 ! j) + (\<Sum>i<Suc k'. snd (rest ! i ! j))"
      by (simp add: sum.lessThan_Suc_shift del: sum.lessThan_Suc)
    ultimately show ?thesis
      unfolding Suc at by (simp add: Let_def algebra_simps del: sum.lessThan_Suc)
  qed
qed

lemma stackOffsetNone_length [simp]: "length (stackOffsetNone series) = length series"
  by (simp add: stackOffsetNone_def split: list.splits)

lemma stackOffsetNone_nth:
  assumes "\<forall>s\<in>set series. length s = m" and "\<forall>p\<in>set (hd series). fst p = 0"
    and "k < length series" and "j < m"
  shows "length (stackOffsetNone series ! k) = m
       \<and> stackOffsetNone series ! k ! j
          = ((\<Sum>i<k. snd (series ! i ! j)), (\<Sum>i<Suc k. snd (series ! i ! j)))"
proof (cases series)
  case Nil
  then show ?thesis using assms by simp
next
  case (Cons s rest)
  have s: "length s = m" "fst (s ! j) = 0"
    using assms Cons by simp_all
  show ?thesis
  proof (cases k)
    case 0
    then show ?thesis
      using s Cons by (simp add: stackOffsetNone_def prod_eq_iff)
  next
    case (Suc k')
    have "length (stackOffsetNone_from s rest ! k') = m
       \<and> stackOffsetNone_from s rest ! k' ! j
          = (snd (s ! j) + (\<Sum>i<k'. snd (rest ! i ! j)), snd (s ! j) + (\<Sum>i<Suc k'. snd (rest ! i ! j)))"
      using assms Cons Suc s by (intro stackOffsetNone_from_nth) simp_all
    moreover have "(\<Sum>i<Suc k'. snd ((s # rest) ! i ! j)) = snd (s ! j) + (\<Sum>i<k'. snd (rest ! i ! j))"
      by (simp add: sum.lessThan_Suc_shift del: sum.lessThan_Suc)
    moreover have "(\<Sum>i<Suc (Suc k'). snd ((s # rest) ! i ! j)) = snd (s ! j) + (\<Sum>i<Suc k'. snd (rest ! i ! j))"
      by (simp add: sum.lessThan_Suc_shift del: sum.lessThan_Suc)
    ultimately show ?thesis
      unfolding Suc Cons by (simp add: stackOffsetNone_def del: sum.lessThan_Suc)
  qed
qed

lemma stackOffsetNone_from_nth_length:
  assumes "\<forall>s\<in>set rest. length s = m" and "length s0 = m" and "k < length rest"
  shows "length (stackOffsetNone_from s0 rest ! k) = m"
  using assms
proof (induction rest arbitrary: s0 k)
  case Nil
  then show ?case by simp
next
  case (Cons s1 rest)
  then show ?case
    by (cases k) (simp_all add: Let_def)
qed

lemma stackOffsetNone_nth_length:
  assumes "\<forall>s\<in>set series. length s = m" and "k < length series"
  shows "length (stackOffsetNone series ! k) = m"
proof (cases series)
  case Nil
  then show ?thesis using assms by simp
next
  case (Cons s rest)
  then show ?thesis
    using assms stackOffsetNone_from_nth_length [of rest m s]
    by (cases k) (simp_all add: stackOffsetNone_def)
qed

lemma d3_transpose_nonempty:
  assumes "series \<noteq> []"
  shows "d3_transpose series
         = map (\<lambda>i. map (\<lambda>row. row ! i) series) [0..<Min (set (map length series))]"
  using assms by (simp add: d3_transpose_def d3_min_Min)

lemma transposedStack_empty [simp]: "transposedStack [] = []"
  by (simp add: transposedStack_def d3_stack_def d3_range_def stackOffsetNone_def)

lemma transposedStack_length [simp]: "length (transposedStack series) = length series"
  by (simp add: transposedStack_def d3_stack_def d3_range_def)

lemma transposedStack_nth_length:
  assumes "k < length series"
  shows "length (transposedStack series ! k) = Min (set (map length series))"
proof -
  have ne: "series \<noteq> []" using assms by auto
  show ?thesis
    unfolding transposedStack_def d3_stack_def d3_range_def d3_transpose_nonempty [OF ne]
    using assms by (intro stackOffsetNone_nth_length) auto
qed

lemma transposedStack_nth:
  assumes "k < length series" and "j < Min (set (map length series))"
  shows "transposedStack series ! k ! j
         = ((\<Sum>i<k. series ! i ! j), (\<Sum>i<Suc k. series ! i ! j))"
proof -
  let ?m = "Min (set (map length series))"
  let ?pre = "map (\<lambda>key. map (\<lambda>d. (0::real, d ! key))
                 (map (\<lambda>i. map (\<lambda>row. row ! i) series) [0..<?m])) [0..<length series]"
  have ne: "series \<noteq> []" using assms by auto
  have pre: "\<And>i. i < length series \<Longrightarrow> ?pre ! i ! j = (0, series ! i ! j)"
    using assms(2) by simp
  have "stackOffsetNone ?pre ! k ! j
      = ((\<Sum>i<k. snd (?pre ! i ! j)), (\<Sum>i<Suc k. snd (?pre ! i ! j)))"
    using assms ne
    by (intro stackOffsetNone_nth [where m = ?m, THEN conjunct2]) (auto simp: hd_conv_nth)
  also have "(\<Sum>i<k. snd (?pre ! i ! j)) = (\<Sum>i<k. series ! i ! j)"
  proof (rule sum.cong [OF refl])
    fix i
    assume "i \<in> {..<k}"
    then have "i < length series"
      using assms(1) by simp
    then show "snd (?pre ! i ! j) = series ! i ! j"
      by (simp only: pre snd_conv)
  qed
  also have "(\<Sum>i<Suc k. snd (?pre ! i ! j)) = (\<Sum>i<Suc k. series ! i ! j)"
  proof (rule sum.cong [OF refl])
    fix i
    assume "i \<in> {..<Suc k}"
    then have "i < length series"
      using assms(1) by simp
    then show "snd (?pre ! i ! j) = series ! i ! j"
      by (simp only: pre snd_conv)
  qed
  finally show ?thesis
    by (simp add: transposedStack_def d3_stack_def d3_range_def d3_transpose_nonempty [OF ne])
qed

lemma updateStack_no_series:
  assumes "areas (data this) = []"
  shows "updateStack t0 this = Inr []"
  using assms
  by (simp add: updateStack_def areaCount_def mapIndexedE_def d3_stack_def d3_range_def
      stackOffsetNone_def d3_transpose_def)

lemma xAxisSectionCount_series:
  assumes "areas (data this) \<noteq> []"
  shows "xAxisSectionCount this = Inr (int (length (hd (areas (data this)))) - 1)"
  using assms by (cases "areas (data this)") (simp_all add: xAxisSectionCount_def)

lemma xScale_series:
  assumes "areas (data this) \<noteq> []"
  shows "xScale this
         = Inr \<lparr>scale_domain = (0, real_of_int (int (length (hd (areas (data this)))) - 1)),
                scale_range = (0, real (clientWidth (container this)))\<rparr>"
  using assms by (simp add: xScale_def xAxisSectionCount_series)

lemma shortest_le_first:
  assumes "series \<noteq> []"
  shows "Min (set (map length series)) \<le> length (hd series)"
  using assms by (cases series) simp_all

lemma updateStack_series:
  assumes "areas (data this) \<noteq> []"
  shows "\<exists>fullStack. updateStack t0 this = Inr fullStack
      \<and> length fullStack = length (areas (data this))
      \<and> (\<forall>k<length (areas (data this)).
            length (fullStack ! k) = Min (set (map length (areas (data this))))
            \<and> (\<forall>j<Min (set (map length (areas (data this)))).
                  y0 (fullStack ! k ! j) = (\<Sum>i<k. areas (data this) ! i ! j)
                  \<and> y1 (fullStack ! k ! j) = (\<Sum>i<Suc k. areas (data this) ! i ! j)
                  \<and> y_coord (coords (fullStack ! k ! j)) = (\<Sum>i<Suc k. areas (data this) ! i ! j)
                  \<and> meta (fullStack ! k ! j) = array_at (areaMeta (data this)) k))"
proof -
  define series where "series = areas (data this)"
  define m where "m = Min (set (map length series))"
  define xs where "xs = \<lparr>scale_domain = (0, real_of_int (int (length (hd series)) - 1)),
                scale_range = (0, real (clientWidth (container this)))\<rparr>"
  define xPosition where "xPosition = (\<lambda>index. if index = 0 then 0
         else real (clientWidth (container this)) / real_of_int (int (length (hd series)) - 1) * real index)"
  define pt where "pt = (\<lambda>areaIndex index (currentValue :: real \<times> real).
       \<lparr>y0 = fst currentValue, y1 = snd currentValue,
        coords = \<lparr>x_coord = scale_invert t0 xs (xPosition index), y_coord = snd currentValue\<rparr>,
        meta = array_at (areaMeta (data this)) areaIndex\<rparr>)"
  have ne: "series \<noteq> []"
    using assms by (simp add: series_def)
  have ts: "d3_stack (d3_range (areaCount this)) (d3_transpose (areas (data this))) = transposedStack series"
    by (simp add: transposedStack_def areaCount_def series_def)
  have inner: "mapIndexedE (\<lambda>index currentValue.
                bindE (if index = 0 then Inr 0
                       else bindE (xAxisSectionCount this) (\<lambda>sectionCount.
                              bindE (js_div (real (clientWidth (container this))) (real_of_int sectionCount)) (\<lambda>sectionWidth.
                                Inr (sectionWidth * real index))))
                  (\<lambda>xPosition.
                bindE (xScale this) (\<lambda>xs.
                  Inr \<lparr>y0 = fst currentValue,
                       y1 = snd currentValue,
                       coords = \<lparr>x_coord = scale_invert t0 xs xPosition, y_coord = snd currentValue\<rparr>,
                       meta = array_at (areaMeta (data this)) k\<rparr>)))
              (transposedStack series ! k)
         = Inr (map (\<lambda>(index, currentValue). pt k index currentValue) (enumerate 0 (transposedStack series ! k)))"
    if k: "k < length series" for k
  proof (rule mapIndexedE_Inr)
    fix j
    assume "j < length (transposedStack series ! k)"
    then have "j < m"
      using k by (simp add: transposedStack_nth_length m_def)
    then have "j < length (hd series)"
      using shortest_le_first [OF ne] by (simp add: m_def)
    then have "j \<noteq> 0 \<Longrightarrow> real_of_int (int (length (hd series)) - 1) \<noteq> 0"
      by simp
    then show "bindE (if j = 0 then Inr 0
                       else bindE (xAxisSectionCount this) (\<lambda>sectionCount.
                              bindE (js_div (real (clientWidth (container this))) (real_of_int sectionCount)) (\<lambda>sectionWidth.
                                Inr (sectionWidth * real j))))
                  (\<lambda>xPosition.
                bindE (xScale this) (\<lambda>xs.
                  Inr \<lparr>y0 = fst (transposedStack series ! k ! j),
                       y1 = snd (transposedStack series ! k ! j),
                       coords = \<lparr>x_coord = scale_invert t0 xs xPosition, y_coord = snd (transposedStack series ! k ! j)\<rparr>,
                       meta = array_at (areaMeta (data this)) k\<rparr>))
          = Inr (pt k j (transposedStack series ! k ! j))"
      using assms
      by (simp add: xAxisSectionCount_series xScale_series js_div_def pt_def xs_def xPosition_def series_def)
  qed
  define fullStack where "fullStack = map (\<lambda>(areaIndex, arrays). map (\<lambda>(index, currentValue). pt areaIndex index currentValue) (enumerate 0 arrays)) (enumerate 0 (transposedStack series))"
  have "updateStack t0 this = Inr fullStack"
    unfolding updateStack_def Let_def ts fullStack_def
    by (rule mapIndexedE_Inr) (simp add: inner)
  moreover have "length fullStack = length series"
    by (simp add: fullStack_def)
  moreover have "length (fullStack ! k) = m" if "k < length series" for k
    using that by (simp add: fullStack_def nth_enumerate_eq transposedStack_nth_length m_def)
  moreover have "fullStack ! k ! j = pt k j ((\<Sum>i<k. series ! i ! j), (\<Sum>i<Suc k. series ! i ! j))"
    if "k < length series" "j < m" for k j
    using that
    by (simp add: fullStack_def nth_enumerate_eq transposedStack_nth_length transposedStack_nth m_def
        del: sum.lessThan_Suc)
  ultimately show ?thesis
    unfolding series_def [symmetric] m_def [symmetric]
    by (intro exI [of _ fullStack]) (simp add: pt_def del: sum.lessThan_Suc)
qed

lemma example_graph_simps [simp]:
  "areas (data (example_graph series metas width height)) = series"
  "areaMeta (data (example_graph series metas width height)) = metas"
  "clientWidth (container (example_graph series metas width height)) = width"
  "clientHeight (container (example_graph series metas width height)) = height"
  by (simp_all add: example_graph_def)

lemma shortest_equal_lengths:
  assumes "\<forall>s\<in>set series. length s = n" and "series \<noteq> []"
  shows "Min (set (map length series)) = n"
proof -
  have "set (map length series) = {n}"
    using assms by (cases series) auto
  then show ?thesis by simp
qed

text \<open>
  Claim C1: for every collection of series of equal length \<open>n\<close>, \<^verbatim>\<open>updateStack\<close> returns
  a stack in which the point of series \<open>k\<close> at index \<open>j\<close> has as baseline the sum of the
  values of the series \<open>0, ..., k - 1\<close> at \<open>j\<close>, and as top its baseline plus the value of
  series \<open>k\<close> at \<open>j\<close>.
\<close>

theorem updateStack_cumulative:
  assumes "\<forall>series\<in>set (areas (data this)). length series = n"
  shows "\<exists>fullStack. updateStack t0 this = Inr fullStack
      \<and> (\<forall>k<length (areas (data this)). \<forall>j<n.
            y0 (fullStack ! k ! j) = (\<Sum>i<k. areas (data this) ! i ! j)
            \<and> y1 (fullStack ! k ! j) = y0 (fullStack ! k ! j) + areas (data this) ! k ! j)"
proof (cases "areas (data this) = []")
  case True
  then show ?thesis
    by (simp add: updateStack_no_series)
next
  case False
  have m: "Min (set (map length (areas (data this)))) = n"
    using assms False by (rule shortest_equal_lengths)
  obtain fullStack where fs: "updateStack t0 this = Inr fullStack"
    and pts: "\<forall>k<length (areas (data this)).
            length (fullStack ! k) = n
            \<and> (\<forall>j<n.
                  y0 (fullStack ! k ! j) = (\<Sum>i<k. areas (data this) ! i ! j)
                  \<and> y1 (fullStack ! k ! j) = (\<Sum>i<Suc k. areas (data this) ! i ! j)
                  \<and> y_coord (coords (fullStack ! k ! j)) = (\<Sum>i<Suc k. areas (data this) ! i ! j)
                  \<and> meta (fullStack ! k ! j) = array_at (areaMeta (data this)) k)"
    using updateStack_series [OF False, of t0] unfolding m by blast
  show ?thesis
    using fs pts by (intro exI [of _ fullStack]) simp
qed

text \<open>
  Claim C1 for the series \<open>[[1, 2], [3, 4]]\<close>: at index 0, the point of series 1 has
  baseline 1 and top 4, and the point of series 0 has baseline 0 and top 1.
\<close>

theorem updateStack_cumulative_witness:
  "\<exists>fullStack.
     updateStack (1 / 2) (example_graph [[1, 2], [3, 4]] [NoStyle, ClassNames ''area--blue-light''] 200 100)
       = Inr fullStack
     \<and> y0 (fullStack ! 1 ! 0) = 1 \<and> y1 (fullStack ! 1 ! 0) = 4
     \<and> y0 (fullStack ! 0 ! 0) = 0 \<and> y1 (fullStack ! 0 ! 0) = 1"
proof -
  let ?g = "example_graph [[1, 2], [3, 4]] [NoStyle, ClassNames ''area--blue-light''] 200 100"
  have eq: "\<forall>series\<in>set (areas (data ?g)). length series = 2"
    by simp
  obtain fullStack where fs: "updateStack (1 / 2) ?g = Inr fullStack"
    and pts: "\<forall>k<length (areas (data ?g)). \<forall>j<2.
            y0 (fullStack ! k ! j) = (\<Sum>i<k. areas (data ?g) ! i ! j)
            \<and> y1 (fullStack ! k ! j) = y0 (fullStack ! k ! j) + areas (data ?g) ! k ! j"
    using updateStack_cumulative [OF eq, of "1 / 2"] by blast
  have "y0 (fullStack ! 1 ! 0) = 1 \<and> y1 (fullStack ! 1 ! 0) = 4"
    using pts [rule_format, of 1 0] by simp
  moreover have "y0 (fullStack ! 0 ! 0) = 0 \<and> y1 (fullStack ! 0 ! 0) = 1"
    using pts [rule_format, of 0 0] by simp
  ultimately show ?thesis
    using fs by (intro exI [of _ fullStack]) simp
qed

text \<open>
  Claim C8: for every collection of series of equal length \<open>n\<close> and a metadata sequence of
  the same length as the collection, \<^verbatim>\<open>updateStack\<close> returns one sequence of points per
  series, each of length \<open>n\<close>, and the \<open>meta\<close> of every point of sequence \<open>k\<close> is entry
  \<open>k\<close> of the metadata.
\<close>

theorem updateStack_shape_and_meta:
  assumes "\<forall>series\<in>set (areas (data this)). length series = n"
    and "length (areaMeta (data this)) = length (areas (data this))"
  shows "\<exists>fullStack. updateStack t0 this = Inr fullStack
      \<and> length fullStack = length (areas (data this))
      \<and> (\<forall>k<length (areas (data this)).
            length (fullStack ! k) = n
            \<and> (\<forall>p\<in>set (fullStack ! k). meta p = Some (areaMeta (data this) ! k)))"
proof (cases "areas (data this) = []")
  case True
  then show ?thesis
    by (simp add: updateStack_no_series)
next
  case False
  have m: "Min (set (map length (areas (data this)))) = n"
    using assms(1) False by (rule shortest_equal_lengths)
  obtain fullStack where fs: "updateStack t0 this = Inr fullStack"
    and len: "length fullStack = length (areas (data this))"
    and pts: "\<forall>k<length (areas (data this)).
            length (fullStack ! k) = n
            \<and> (\<forall>j<n.
                  y0 (fullStack ! k ! j) = (\<Sum>i<k. areas (data this) ! i ! j)
                  \<and> y1 (fullStack ! k ! j) = (\<Sum>i<Suc k. areas (data this) ! i ! j)
                  \<and> y_coord (coords (fullStack ! k ! j)) = (\<Sum>i<Suc k. areas (data this) ! i ! j)
                  \<and> meta (fullStack ! k ! j) = array_at (areaMeta (data this)) k)"
    using updateStack_series [OF False, of t0] unfolding m by blast
  have "length (fullStack ! k) = n
      \<and> (\<forall>p\<in>set (fullStack ! k). meta p = Some (areaMeta (data this) ! k))"
    if k: "k < length (areas (data this))" for k
  proof (intro conjI ballI)
    show l: "length (fullStack ! k) = n"
      using pts k by blast
    fix p
    assume "p \<in> set (fullStack ! k)"
    then obtain j where "j < n" "p = fullStack ! k ! j"
      using l by (metis in_set_conv_nth)
    then have "meta p = array_at (areaMeta (data this)) k"
      using pts k by blast
    then show "meta p = Some (areaMeta (data this) ! k)"
      using k assms(2) by (simp add: array_at_def)
  qed
  then show ?thesis
    using fs len by (intro exI [of _ fullStack]) simp
qed

text \<open>Claim C8 for three series of length 5: three sequences of five points.\<close>

theorem updateStack_shape_and_meta_witness:
  "\<exists>fullStack. updateStack (1 / 2) example_three_series = Inr fullStack
      \<and> length fullStack = 3
      \<and> length (fullStack ! 0) = 5 \<and> length (fullStack ! 1) = 5 \<and> length (fullStack ! 2) = 5
      \<and> list_all (\<lambda>p. meta p = Some NoStyle) (fullStack ! 0)
      \<and> list_all (\<lambda>p. meta p = Some (ClassNames ''area--blue-light'')) (fullStack ! 1)
      \<and> list_all (\<lambda>p. meta p = Some (ClassNames ''area--green-dark'')) (fullStack ! 2)"
proof -
  have eq: "\<forall>series\<in>set (areas (data example_three_series)). length series = 5"
    by (simp add: example_three_series_def)
  have par: "length (areaMeta (data example_three_series)) = length (areas (data example_three_series))"
    by (simp add: example_three_series_def)
  obtain fullStack where fs: "updateStack (1 / 2) example_three_series = Inr fullStack"
    and len: "length fullStack = length (areas (data example_three_series))"
    and pts: "\<forall>k<length (areas (data example_three_series)).
            length (fullStack ! k) = 5
            \<and> (\<forall>p\<in>set (fullStack ! k). meta p = Some (areaMeta (data example_three_series) ! k))"
    using updateStack_shape_and_meta [OF eq par, of "1 / 2"] by blast
  have l3: "length fullStack = 3"
    using len by (simp add: example_three_series_def)
  have k0: "length (fullStack ! 0) = 5 \<and> (\<forall>p\<in>set (fullStack ! 0). meta p = Some NoStyle)"
    using pts [rule_format, of 0] by (simp add: example_three_series_def)
  have k1: "length (fullStack ! 1) = 5
      \<and> (\<forall>p\<in>set (fullStack ! 1). meta p = Some (ClassNames ''area--blue-light''))"
    using pts [rule_format, of 1] by (simp add: example_three_series_def)
  have k2: "length (fullStack ! 2) = 5
      \<and> (\<forall>p\<in>set (fullStack ! 2). meta p = Some (ClassNames ''area--green-dark''))"
    using pts [rule_format, of 2] by (simp add: example_three_series_def)
  show ?thesis
    using fs l3 k0 k1 k2 by (intro exI [of _ fullStack]) (simp add: list_all_iff)
qed

section \<open>Scales\<close>

lemma bimap_nondegenerate:
  assumes "d0 \<noteq> d1"
  shows "bimap t0 (d0, d1) (r0, r1) v = r0 + (r1 - r0) * ((v - d0) / (d1 - d0))"
proof (cases "d1 < d0")
  case True
  have "r1 + (r0 - r1) * ((v - d1) / (d0 - d1)) = r0 + (r1 - r0) * ((v - d0) / (d1 - d0))"
    using assms by (simp add: field_simps)
  then show ?thesis
    using True assms by (simp add: bimap_def normalize_def interpolateNumber_def)
next
  case False
  then show ?thesis
    using assms by (simp add: bimap_def normalize_def interpolateNumber_def)
qed

lemma bimap_degenerate: "bimap t0 (d, d) (r0, r1) v = r0 + (r1 - r0) * t0"
  by (simp add: bimap_def normalize_def interpolateNumber_def)

lemma bimap_ends:
  assumes "d0 \<noteq> d1"
  shows "bimap t0 (d0, d1) (r0, r1) d0 = r0" and "bimap t0 (d0, d1) (r0, r1) d1 = r1"
  using assms by (simp_all add: bimap_nondegenerate)

lemma bimap_round_trip:
  assumes "r0 \<noteq> r1" and "d0 \<noteq> d1 \<or> v = d0"
  shows "bimap t0 (r0, r1) (d0, d1) (bimap t0 (d0, d1) (r0, r1) v) = v"
proof (cases "d0 = d1")
  case True
  then show ?thesis
    using assms by (simp add: bimap_degenerate bimap_nondegenerate)
next
  case False
  then show ?thesis
    using assms(1) by (simp add: bimap_nondegenerate)
qed

lemma d3_min_append:
  "d3_min (vs @ ws) = (case d3_min vs of None \<Rightarrow> d3_min ws
     | Some a \<Rightarrow> (case d3_min ws of None \<Rightarrow> Some a | Some b \<Rightarrow> Some (min a b)))"
  by (induction vs) (auto split: option.splits simp: min.assoc)

lemma d3_max_append:
  "d3_max (vs @ ws) = (case d3_max vs of None \<Rightarrow> d3_max ws
     | Some a \<Rightarrow> (case d3_max ws of None \<Rightarrow> Some a | Some b \<Rightarrow> Some (max a b)))"
  by (induction vs) (auto split: option.splits simp: max.assoc)

lemma d3_min_by_stackMin: "d3_min_by stackMin stk = d3_min (map y0 (concat stk))"
  by (induction stk)
    (auto simp: d3_min_by_def List.map_filter_simps stackMin_def d3_min_append split: option.splits)

lemma d3_max_by_stackMax: "d3_max_by stackMax stk = d3_max (map y1 (concat stk))"
  by (induction stk)
    (auto simp: d3_max_by_def List.map_filter_simps stackMax_def d3_max_append split: option.splits)

lemma yScale_points:
  assumes "concat (stack this) \<noteq> []"
  shows "yScale this
         = Inr \<lparr>scale_domain = (Min (set (map y0 (concat (stack this)))),
                                Max (set (map y1 (concat (stack this))))),
                scale_range = (real (clientHeight (container this)), 5)\<rparr>"
  using assms
  by (simp add: yScale_def d3_min_by_stackMin d3_max_by_stackMax d3_min_Min d3_max_Max)

lemma yScale_no_points:
  assumes "concat (stack this) = []"
  shows "yScale this = Inl NonFinite"
  using assms
  by (simp add: yScale_def d3_min_by_stackMin d3_max_by_stackMax d3_min_Min d3_max_Max)

lemma example_stack_built:
  "updateStack (1 / 2) (example_graph [[1, 2], [3, 4]] [NoStyle, ClassNames ''area--blue-light''] 200 100)
   = Inr example_stack"
  by (simp add: updateStack_def areaCount_def d3_range_def d3_transpose_def d3_stack_def
      stackOffsetNone_def mapIndexedE_def xAxisSectionCount_def xScale_def js_div_def
      scale_invert_def bimap_def normalize_def interpolateNumber_def array_at_def
      example_stack_def example_graph_def Let_def upt_rec)


text \<open>
  Claim C5, as stated, at the stack of the series \<open>[[1, 2], [3, 4]]\<close> and a container of
  height 100: the range of the y-scale is \<open>[100, 5]\<close>, not \<open>[100, 0]\<close>, and the maximum
  stacked value 6 maps to pixel 5.
\<close>

theorem yScale_range_top_is_5:
  "updateStack (1 / 2) (example_graph [[1, 2], [3, 4]] [NoStyle, ClassNames ''area--blue-light''] 200 100)
     = Inr (stack example_stacked)
   \<and> clientHeight (container example_stacked) = 100
   \<and> yScale example_stacked = Inr \<lparr>scale_domain = (0, 6), scale_range = (100, 5)\<rparr>
   \<and> scale_apply 0 \<lparr>scale_domain = (0, 6), scale_range = (100, 5)\<rparr> 6 = 5
   \<and> scale_apply (1 / 2) \<lparr>scale_domain = (0, 6), scale_range = (100, 5)\<rparr> 6 = 5"
proof -
  have "yScale example_stacked = Inr \<lparr>scale_domain = (0, 6), scale_range = (100, 5)\<rparr>"
    by (simp add: yScale_def d3_min_by_def d3_max_by_def List.map_filter_simps stackMin_def
        stackMax_def example_stacked_def example_stack_def example_graph_def)
  moreover have "stack example_stacked = example_stack"
    by (simp add: example_stacked_def)
  moreover have "clientHeight (container example_stacked) = 100"
    by (simp add: example_stacked_def)
  ultimately show ?thesis
    by (simp add: example_stack_built scale_apply_def bimap_def normalize_def interpolateNumber_def)
qed

text \<open>
  Claim C5, amended: for every stack with at least one point and every height of the
  container, \<^verbatim>\<open>yScale\<close> gives the linear scale whose domain runs from the minimum of all
  baselines to the maximum of all tops and whose range is \<open>[height, 5]\<close>; when the two ends
  of the domain differ, the minimum maps to the height and the maximum to pixel 5.
\<close>

theorem yScale_extent:
  assumes "concat (stack this) \<noteq> []"
  shows "\<exists>ys. yScale this = Inr ys
      \<and> scale_domain ys = (Min (set (map y0 (concat (stack this)))),
                           Max (set (map y1 (concat (stack this)))))
      \<and> scale_range ys = (real (clientHeight (container this)), 5)
      \<and> (Min (set (map y0 (concat (stack this)))) \<noteq> Max (set (map y1 (concat (stack this)))) \<longrightarrow>
            scale_apply t0 ys (Min (set (map y0 (concat (stack this)))))
              = real (clientHeight (container this))
            \<and> scale_apply t0 ys (Max (set (map y1 (concat (stack this))))) = 5)"
proof -
  let ?lowest = "Min (set (map y0 (concat (stack this))))"
  let ?highest = "Max (set (map y1 (concat (stack this))))"
  let ?ys = "\<lparr>scale_domain = (?lowest, ?highest),
             scale_range = (real (clientHeight (container this)), 5)\<rparr>"
  have "yScale this = Inr ?ys"
    by (rule yScale_points [OF assms])
  moreover have "scale_apply t0 ?ys ?lowest = real (clientHeight (container this))"
    and "scale_apply t0 ?ys ?highest = 5" if "?lowest \<noteq> ?highest"
    using that by (simp_all add: scale_apply_def bimap_ends del: set_concat set_map)
  ultimately show ?thesis
    by (intro exI [of _ ?ys]) (simp del: set_concat set_map)
qed

text \<open>The amended claim C5 at the stack of \<open>[[1, 2], [3, 4]]\<close> and the height 100.\<close>

theorem yScale_extent_witness:
  "concat (stack example_stacked) \<noteq> []
   \<and> (\<exists>ys. yScale example_stacked = Inr ys
      \<and> scale_domain ys = (0, 6)
      \<and> scale_range ys = (100, 5)
      \<and> scale_apply (1 / 2) ys 0 = 100
      \<and> scale_apply (1 / 2) ys 6 = 5)"
proof -
  have ne: "concat (stack example_stacked) \<noteq> []"
    by (simp add: example_stacked_def example_stack_def)
  have lo: "Min (set (map y0 (concat (stack example_stacked)))) = 0"
    by (simp add: example_stacked_def example_stack_def)
  have hi: "Max (set (map y1 (concat (stack example_stacked)))) = 6"
    by (simp add: example_stacked_def example_stack_def)
  have h: "real (clientHeight (container example_stacked)) = 100"
    by (simp add: example_stacked_def)
  show ?thesis
    using yScale_extent [OF ne, of "1 / 2"] ne unfolding lo hi h by simp
qed

text \<open>
  Claim C6, as stated, at a container of width zero and one series of three values
  (\<open>sectionCount = 2\<close>): the x-scale maps \<open>x = 2\<close> to pixel 0, and the inverse maps pixel 0
  to 0 (d3-scale 1.x) or to 1 (d3-scale 2.x and later), never back to 2.
\<close>

theorem scale_round_trip_zero_width:
  "xAxisSectionCount example_zero_width = Inr 2
   \<and> clientWidth (container example_zero_width) = 0
   \<and> xScale example_zero_width = Inr \<lparr>scale_domain = (0, 2), scale_range = (0, 0)\<rparr>
   \<and> scale_invert 0 \<lparr>scale_domain = (0, 2), scale_range = (0, 0)\<rparr>
        (scale_apply 0 \<lparr>scale_domain = (0, 2), scale_range = (0, 0)\<rparr> 2) = 0
   \<and> scale_invert (1 / 2) \<lparr>scale_domain = (0, 2), scale_range = (0, 0)\<rparr>
        (scale_apply (1 / 2) \<lparr>scale_domain = (0, 2), scale_range = (0, 0)\<rparr> 2) = 1"
  by (simp add: example_zero_width_def example_graph_def xAxisSectionCount_def xScale_def
      scale_invert_def scale_apply_def bimap_def normalize_def interpolateNumber_def)

text \<open>
  Claim C6, amended, in exact arithmetic: when the width of the container is not zero,
  the inverse of the x-scale after the x-scale is the identity on \<open>[0, sectionCount]\<close>,
  and when moreover \<open>sectionCount\<close> is not zero the x-scale after its inverse is the
  identity; when the height of the container is not 5, the inverse of the y-scale after
  the y-scale is the identity between the two ends of its domain, and when moreover the
  two ends differ the y-scale after its inverse is the identity.
\<close>

theorem scales_round_trip:
  "(xScale this = Inr xs \<longrightarrow> clientWidth (container this) \<noteq> 0 \<longrightarrow>
      (\<exists>sectionCount. xAxisSectionCount this = Inr sectionCount
         \<and> scale_domain xs = (0, real_of_int sectionCount)
         \<and> scale_range xs = (0, real (clientWidth (container this)))
         \<and> (\<forall>v. 0 \<le> v \<and> v \<le> real_of_int sectionCount \<longrightarrow>
               scale_invert t0 xs (scale_apply t0 xs v) = v)
         \<and> (sectionCount \<noteq> 0 \<longrightarrow>
               (\<forall>px. scale_apply t0 xs (scale_invert t0 xs px) = px))))
   \<and> (yScale this = Inr ys \<longrightarrow> clientHeight (container this) \<noteq> 5 \<longrightarrow>
        (\<forall>v. (fst (scale_domain ys) \<le> v \<and> v \<le> snd (scale_domain ys)
               \<or> snd (scale_domain ys) \<le> v \<and> v \<le> fst (scale_domain ys)) \<longrightarrow>
              scale_invert t0 ys (scale_apply t0 ys v) = v)
        \<and> (fst (scale_domain ys) \<noteq> snd (scale_domain ys) \<longrightarrow>
              (\<forall>px. scale_apply t0 ys (scale_invert t0 ys px) = px)))"
proof (intro conjI impI)
  assume xs: "xScale this = Inr xs" and w: "clientWidth (container this) \<noteq> 0"
  then have ne: "areas (data this) \<noteq> []"
    by (auto simp: xScale_def xAxisSectionCount_def)
  let ?n = "int (length (hd (areas (data this)))) - 1"
  have xs_eq: "xs = \<lparr>scale_domain = (0, real_of_int ?n),
                scale_range = (0, real (clientWidth (container this)))\<rparr>"
    using xs by (simp add: xScale_series [OF ne])
  have fwd: "scale_invert t0 xs (scale_apply t0 xs v) = v"
    if "0 \<le> v \<and> v \<le> real_of_int ?n" for v
  proof -
    have "(0::real) \<noteq> real_of_int ?n \<or> v = 0"
      using that by linarith
    then show ?thesis
      using w by (simp add: xs_eq scale_invert_def scale_apply_def bimap_round_trip)
  qed
  have bwd: "scale_apply t0 xs (scale_invert t0 xs px) = px" if "?n \<noteq> 0" for px
    using that w by (simp add: xs_eq scale_invert_def scale_apply_def bimap_round_trip)
  show "\<exists>sectionCount. xAxisSectionCount this = Inr sectionCount
         \<and> scale_domain xs = (0, real_of_int sectionCount)
         \<and> scale_range xs = (0, real (clientWidth (container this)))
         \<and> (\<forall>v. 0 \<le> v \<and> v \<le> real_of_int sectionCount \<longrightarrow>
               scale_invert t0 xs (scale_apply t0 xs v) = v)
         \<and> (sectionCount \<noteq> 0 \<longrightarrow>
               (\<forall>px. scale_apply t0 xs (scale_invert t0 xs px) = px))"
    using fwd bwd
    by (intro exI [of _ ?n] conjI allI impI xAxisSectionCount_series [OF ne])
       (simp_all add: xs_eq)
next
  assume ys: "yScale this = Inr ys" and h: "clientHeight (container this) \<noteq> 5"
  have r: "scale_range ys = (real (clientHeight (container this)), 5)"
    using ys by (auto simp: yScale_def split: option.splits)
  obtain d0 d1 where d: "scale_domain ys = (d0, d1)"
    by (cases "scale_domain ys")
  have rne: "real (clientHeight (container this)) \<noteq> 5"
    using h by (metis of_nat_eq_iff of_nat_numeral)
  show "\<forall>v. (fst (scale_domain ys) \<le> v \<and> v \<le> snd (scale_domain ys)
               \<or> snd (scale_domain ys) \<le> v \<and> v \<le> fst (scale_domain ys)) \<longrightarrow>
              scale_invert t0 ys (scale_apply t0 ys v) = v"
  proof (intro allI impI)
    fix v
    assume "fst (scale_domain ys) \<le> v \<and> v \<le> snd (scale_domain ys)
               \<or> snd (scale_domain ys) \<le> v \<and> v \<le> fst (scale_domain ys)"
    then have "d0 \<noteq> d1 \<or> v = d0"
      unfolding d by auto
    then show "scale_invert t0 ys (scale_apply t0 ys v) = v"
      using rne by (simp add: scale_invert_def scale_apply_def r d bimap_round_trip)
  qed
  show "\<forall>px. scale_apply t0 ys (scale_invert t0 ys px) = px"
    if "fst (scale_domain ys) \<noteq> snd (scale_domain ys)"
    using that rne by (simp add: scale_invert_def scale_apply_def r d bimap_round_trip)
qed

text \<open>
  The amended claim C6 at the graph of \<open>[[1, 2], [3, 4]]\<close> in a container of 200 by 100
  pixels.
\<close>

theorem scales_round_trip_witness:
  "xScale example_stacked = Inr \<lparr>scale_domain = (0, 1), scale_range = (0, 200)\<rparr>
   \<and> yScale example_stacked = Inr \<lparr>scale_domain = (0, 6), scale_range = (100, 5)\<rparr>
   \<and> clientWidth (container example_stacked) \<noteq> 0
   \<and> clientHeight (container example_stacked) \<noteq> 5
   \<and> scale_invert (1 / 2) \<lparr>scale_domain = (0, 1), scale_range = (0, 200)\<rparr>
        (scale_apply (1 / 2) \<lparr>scale_domain = (0, 1), scale_range = (0, 200)\<rparr> (1 / 4)) = 1 / 4
   \<and> scale_apply (1 / 2) \<lparr>scale_domain = (0, 1), scale_range = (0, 200)\<rparr>
        (scale_invert (1 / 2) \<lparr>scale_domain = (0, 1), scale_range = (0, 200)\<rparr> 50) = 50
   \<and> scale_invert (1 / 2) \<lparr>scale_domain = (0, 6), scale_range = (100, 5)\<rparr>
        (scale_apply (1 / 2) \<lparr>scale_domain = (0, 6), scale_range = (100, 5)\<rparr> 3) = 3
   \<and> scale_apply (1 / 2) \<lparr>scale_domain = (0, 6), scale_range = (100, 5)\<rparr>
        (scale_invert (1 / 2) \<lparr>scale_domain = (0, 6), scale_range = (100, 5)\<rparr> 50) = 50"
proof -
  let ?xs = "\<lparr>scale_domain = (0, 1), scale_range = (0, 200)\<rparr>"
  let ?ys = "\<lparr>scale_domain = (0, 6), scale_range = (100, 5)\<rparr>"
  have xs: "xScale example_stacked = Inr ?xs"
    by (simp add: xScale_def xAxisSectionCount_def example_stacked_def example_graph_def)
  have ys: "yScale example_stacked = Inr ?ys"
    by (simp add: yScale_def d3_min_by_def d3_max_by_def List.map_filter_simps stackMin_def
        stackMax_def example_stacked_def example_stack_def example_graph_def)
  have w: "clientWidth (container example_stacked) \<noteq> 0"
    and h: "clientHeight (container example_stacked) \<noteq> 5"
    by (simp_all add: example_stacked_def)
  note inst = scales_round_trip [of example_stacked ?xs "1 / 2" ?ys]
  from inst [THEN conjunct1, rule_format, OF xs w]
  obtain sectionCount where n: "xAxisSectionCount example_stacked = Inr sectionCount"
    and fx: "\<forall>v. 0 \<le> v \<and> v \<le> real_of_int sectionCount \<longrightarrow>
               scale_invert (1 / 2) ?xs (scale_apply (1 / 2) ?xs v) = v"
    and bx: "sectionCount \<noteq> 0 \<longrightarrow>
               (\<forall>px. scale_apply (1 / 2) ?xs (scale_invert (1 / 2) ?xs px) = px)"
    by blast
  have "sectionCount = 1"
    using n by (simp add: xAxisSectionCount_def example_stacked_def example_graph_def)
  then have x1: "scale_invert (1 / 2) ?xs (scale_apply (1 / 2) ?xs (1 / 4)) = 1 / 4"
    and x2: "scale_apply (1 / 2) ?xs (scale_invert (1 / 2) ?xs 50) = 50"
    using fx bx by simp_all
  from inst [THEN conjunct2, rule_format, OF ys h]
  have fy: "\<forall>v. (fst (scale_domain ?ys) \<le> v \<and> v \<le> snd (scale_domain ?ys)
               \<or> snd (scale_domain ?ys) \<le> v \<and> v \<le> fst (scale_domain ?ys)) \<longrightarrow>
              scale_invert (1 / 2) ?ys (scale_apply (1 / 2) ?ys v) = v"
    and by': "fst (scale_domain ?ys) \<noteq> snd (scale_domain ?ys) \<longrightarrow>
              (\<forall>px. scale_apply (1 / 2) ?ys (scale_invert (1 / 2) ?ys px) = px)"
    by blast+
  have y1: "scale_invert (1 / 2) ?ys (scale_apply (1 / 2) ?ys 3) = 3"
    using fy [rule_format, of 3] by simp
  have y2: "scale_apply (1 / 2) ?ys (scale_invert (1 / 2) ?ys 50) = 50"
    using by' by simp
  show ?thesis
    using xs ys w h x1 x2 y1 y2 by (intro conjI)
qed

section \<open>Rendering and updates\<close>

lemma mapIndexedE_empty [simp]: "mapIndexedE f [] = Inr []"
  by (simp add: mapIndexedE_def)







lemma updateStack_ignores_children:
  "updateStack t0 (this\<lparr>childNodes := nodes\<rparr>) = updateStack t0 this"
  by (simp add: updateStack_def areaCount_def xAxisSectionCount_def xScale_def cong: if_cong)



lemma remove_visited_Nil [simp]: "remove_visited [] = []"
  by (simp add: remove_visited_def)

lemma remove_visited_single [simp]: "remove_visited [a] = []"
  by (simp add: remove_visited_def)

lemma remove_visited_pair [simp]: "remove_visited [a, b] = [b]"
  by (simp add: remove_visited_def upt_rec)






text \<open>
  Between \<^verbatim>\<open>update\<close> and its animation frame the graph holds the new data with the old
  stack. A \<^verbatim>\<open>render\<close> in that state, as the resize callback of the same frame would do,
  throws when the new series sequence is empty and the old stack has a point: the
  accessors of the paths read \<^verbatim>\<open>areas[0].length\<close>.
\<close>

lemma render_with_stale_stack_throws:
  "render t0 (update example_stacked \<lparr>new_areas = Some [], new_areaMeta = None\<rparr>) = Inl TypeError"
  by (simp add: render_def renderAreas_def curveArea_def mapIndexedE_def xScale_def
      xAxisSectionCount_def update_def extends_def example_stacked_def example_stack_def
      example_graph_def)

text \<open>
  With \<^verbatim>\<open>areas = []\<close> neither the constructor nor \<^verbatim>\<open>update\<close> with its animation frame fails:
  the stack is empty and the \<^verbatim>\<open>svg\<close> appended has two layers and no path. What else the
  container holds afterwards is what \<^verbatim>\<open>clear\<close> left of its children.
\<close>

lemma new_AreaGraph_no_series:
  "new_AreaGraph t0 element children \<lparr>areas = [], areaMeta = metas\<rparr>
     = Inr \<lparr>container = element,
            childNodes = children @ [SvgNode (empty_svg element)],
            data = \<lparr>areas = [], areaMeta = metas\<rparr>,
            stack = []\<rparr>"
  by (simp add: new_AreaGraph_def init_def updateStack_no_series render_def renderAreas_def
      renderAreaBorders_def empty_svg_def)

lemma update_frame_no_series:
  "update_frame t0 (update this \<lparr>new_areas = Some [], new_areaMeta = given_meta\<rparr>)
     = Inr (this\<lparr>childNodes := remove_visited (childNodes this) @ [SvgNode (empty_svg (container this))],
               data := \<lparr>areas = [],
                        areaMeta = (case given_meta of None \<Rightarrow> areaMeta (data this) | Some m \<Rightarrow> m)\<rparr>,
               stack := []\<rparr>)"
  by (simp add: update_frame_def update_def extends_def clear_def updateStack_no_series
      render_def renderAreas_def renderAreaBorders_def Let_def empty_svg_def)

lemma update_frame_no_series_single_child:
  assumes "length (childNodes this) \<le> 1"
  shows "\<exists>after. update_frame t0 (update this \<lparr>new_areas = Some [], new_areaMeta = given_meta\<rparr>) = Inr after
      \<and> drawn_elements after = []"
proof -
  have "remove_visited (childNodes this) = []"
    using assms by (cases "childNodes this") (auto simp: length_Suc_conv)
  then show ?thesis
    by (simp add: update_frame_no_series drawn_elements_def layers_of_def empty_svg_def)
qed

text \<open>
  Claim C9 at a container that held one node when the graph of \<open>[[1, 2], [3, 4]]\<close> was
  constructed in it. The constructor leaves that node and the \<^verbatim>\<open>svg\<close> with its four paths.
  \<^verbatim>\<open>update({areas: []})\<close> with its animation frame does not fail, but \<^verbatim>\<open>clear\<close> detaches only
  the first of the two children: the container then holds the old \<^verbatim>\<open>svg\<close>, whose four paths
  are still drawn, followed by the new \<^verbatim>\<open>svg\<close> without a path.
\<close>

theorem update_no_series_keeps_old_paths:
  "new_AreaGraph (1 / 2) \<lparr>clientWidth = 200, clientHeight = 100\<rparr> [OtherNode]
       \<lparr>areas = [[1, 2], [3, 4]], areaMeta = [NoStyle, ClassNames ''area--blue-light'']\<rparr>
     = Inr example_rendered
   \<and> update_frame (1 / 2) (update example_rendered \<lparr>new_areas = Some [], new_areaMeta = None\<rparr>)
     = Inr (example_rendered
              \<lparr>childNodes := [SvgNode example_svg,
                               SvgNode \<lparr>svg_height = 100, svg_width = 200,
                                        layers = [(''areas'', []), (''borders'', [])]\<rparr>],
               data := \<lparr>areas = [], areaMeta = [NoStyle, ClassNames ''area--blue-light'']\<rparr>,
               stack := []\<rparr>)
   \<and> drawn_elements
        (example_rendered
              \<lparr>childNodes := [SvgNode example_svg,
                               SvgNode \<lparr>svg_height = 100, svg_width = 200,
                                        layers = [(''areas'', []), (''borders'', [])]\<rparr>],
               data := \<lparr>areas = [], areaMeta = [NoStyle, ClassNames ''area--blue-light'']\<rparr>,
               stack := []\<rparr>)
     = [AreaPath [(0, 100, 505 / 6), (200, 100, 205 / 3)] [],
        AreaPath [(0, 505 / 6, 110 / 3), (200, 205 / 3, 5)] ''area--blue-light'',
        BorderPath [(0, 505 / 6), (200, 205 / 3)],
        BorderPath [(0, 110 / 3), (200, 5)]]"
proof (intro conjI)
  have "updateStack (1 / 2)
      \<lparr>container = \<lparr>clientWidth = 200, clientHeight = 100\<rparr>, childNodes = [OtherNode],
       data = \<lparr>areas = [[1, 2], [3, 4]], areaMeta = [NoStyle, ClassNames ''area--blue-light'']\<rparr>,
       stack = []\<rparr> = Inr example_stack"
    using example_stack_built
      updateStack_ignores_children
        [where ?t0.0 = "1 / 2" and nodes = "[OtherNode]"
           and this = "example_graph [[1, 2], [3, 4]] [NoStyle, ClassNames ''area--blue-light''] 200 100"]
    by (simp add: example_graph_def)
  then have "init (1 / 2)
      \<lparr>container = \<lparr>clientWidth = 200, clientHeight = 100\<rparr>, childNodes = [OtherNode],
       data = \<lparr>areas = [[1, 2], [3, 4]], areaMeta = [NoStyle, ClassNames ''area--blue-light'']\<rparr>,
       stack = []\<rparr>
    = render (1 / 2)
      \<lparr>container = \<lparr>clientWidth = 200, clientHeight = 100\<rparr>, childNodes = [OtherNode],
       data = \<lparr>areas = [[1, 2], [3, 4]], areaMeta = [NoStyle, ClassNames ''area--blue-light'']\<rparr>,
       stack = example_stack\<rparr>"
    by (simp add: init_def)
  also have "\<dots> = Inr example_rendered"
    by (simp add: render_def renderAreas_def renderAreaBorders_def curveArea_def curveAreaBorder_def
        mapIndexedE_def xScale_def xAxisSectionCount_def yScale_def d3_min_by_def d3_max_by_def
        List.map_filter_simps stackMin_def stackMax_def scale_apply_def bimap_def normalize_def
        interpolateNumber_def renderArea_def array_at_def example_stack_def example_rendered_def
        example_svg_def)
  finally show "new_AreaGraph (1 / 2) \<lparr>clientWidth = 200, clientHeight = 100\<rparr> [OtherNode]
       \<lparr>areas = [[1, 2], [3, 4]], areaMeta = [NoStyle, ClassNames ''area--blue-light'']\<rparr>
     = Inr example_rendered"
    by (simp add: new_AreaGraph_def)
next
  show "update_frame (1 / 2) (update example_rendered \<lparr>new_areas = Some [], new_areaMeta = None\<rparr>)
     = Inr (example_rendered
              \<lparr>childNodes := [SvgNode example_svg,
                               SvgNode \<lparr>svg_height = 100, svg_width = 200,
                                        layers = [(''areas'', []), (''borders'', [])]\<rparr>],
               data := \<lparr>areas = [], areaMeta = [NoStyle, ClassNames ''area--blue-light'']\<rparr>,
               stack := []\<rparr>)"
    unfolding update_frame_no_series
    by (simp add: example_rendered_def empty_svg_def)
next
  show "drawn_elements
        (example_rendered
              \<lparr>childNodes := [SvgNode example_svg,
                               SvgNode \<lparr>svg_height = 100, svg_width = 200,
                                        layers = [(''areas'', []), (''borders'', [])]\<rparr>],
               data := \<lparr>areas = [], areaMeta = [NoStyle, ClassNames ''area--blue-light'']\<rparr>,
               stack := []\<rparr>)
     = [AreaPath [(0, 100, 505 / 6), (200, 100, 205 / 3)] [],
        AreaPath [(0, 505 / 6, 110 / 3), (200, 205 / 3, 5)] ''area--blue-light'',
        BorderPath [(0, 505 / 6), (200, 205 / 3)],
        BorderPath [(0, 110 / 3), (200, 5)]]"
    by (simp add: drawn_elements_def layers_of_def example_svg_def)
qed

end
